theory Spec2Isabelle
  imports Main "HOL-Library.Char_ord" "HOL-Library.List_Lexorder" "HOL-Library.Sublist"
begin

section \<open>The object model of the runtime (runtime.cpp)\<close>

text \<open>
  The declarations of \<^verbatim>\<open>runtime.h\<close> are used by \<^verbatim>\<open>runtime.cpp\<close> through their
  members only, so the types below are read off those uses.

  A \<^verbatim>\<open>Method\<close> has a \<^verbatim>\<open>name\<close>, its \<^verbatim>\<open>formal_params\<close> and a \<^verbatim>\<open>body\<close>. The body
  is an \<^verbatim>\<open>Executable\<close> owned by the syntax tree; its type is the parameter \<open>'b\<close>, and
  what running it does is the parameter \<open>Execute\<close> of every function that runs one.
\<close>

record 'b Method =
  name :: string
  formal_params :: "string list"
  body :: 'b

text \<open>
  A \<^verbatim>\<open>Class\<close> holds \<^verbatim>\<open>name_\<close>, \<^verbatim>\<open>methods_\<close>, \<^verbatim>\<open>parent_\<close> (a pointer, null for no
  parent) and \<^verbatim>\<open>v_table_\<close> (an \<^verbatim>\<open>unordered_map\<close> from a method's name to a pointer
  to the method). A method never changes after construction, so the table maps to the
  method itself.
\<close>

datatype 'b Class = ClassRep (Class_name: string) (Class_methods: "'b Method list")
  (Class_parent: "'b Class option") (v_table: "string \<Rightarrow> 'b Method option")

text \<open>
  \<^verbatim>\<open>Class::Class\<close>, lines 115-130: the table is filled from the methods of the parent
  (the vector \<^verbatim>\<open>parent_->methods_\<close>), then from the methods of the class; an assignment
  \<^verbatim>\<open>v_table_[method.name] = &method\<close> replaces an earlier entry of the same name.
\<close>

definition Class_ctor :: "string \<Rightarrow> 'b Method list \<Rightarrow> 'b Class option \<Rightarrow> 'b Class" where
  "Class_ctor nm methods parent =
     ClassRep nm methods parent
       (fold (\<lambda>method vt. vt(name method \<mapsto> method)) methods
          (case parent of
             None \<Rightarrow> Map.empty
           | Some p \<Rightarrow> fold (\<lambda>method vt. vt(name method \<mapsto> method)) (Class_methods p) Map.empty))"

text \<open>\<^verbatim>\<open>Class::GetMethod\<close>, lines 132-138: the entry of the table, or the null pointer.\<close>

definition GetMethod :: "'b Class \<Rightarrow> string \<Rightarrow> 'b Method option" where
  "GetMethod cls nm = (if v_table cls nm \<noteq> None then v_table cls nm else None)"

text \<open>
  Modelled from the spec: the kinds of \<^verbatim>\<open>Object\<close> declared in \<^verbatim>\<open>runtime.h\<close>, which is
  not among the sources. The spec names boolean, number, string, class and class
  instance; \<^verbatim>\<open>runtime.cpp\<close> narrows to \<^verbatim>\<open>Bool\<close>, \<^verbatim>\<open>Number\<close>, \<^verbatim>\<open>String\<close> and
  \<^verbatim>\<open>ClassInstance\<close>. An instance is mutable and is reached through pointers
  (\<^verbatim>\<open>ObjectHolder::Share(*this)\<close>), so an object of that kind is the address of the
  instance. An \<^verbatim>\<open>ObjectHolder\<close> is empty (\<open>None\<close>) or holds an object. The value
  of a \<^verbatim>\<open>Number\<close> is an \<^verbatim>\<open>int\<close>; the functions below compare numbers only, so
  its width plays no part.
\<close>

type_synonym addr = nat

datatype 'b Object = Number int | String string | Bool bool
  | ClassObject "'b Class" | ClassInstanceRef addr

type_synonym 'b ObjectHolder = "'b Object option"

type_synonym 'b Closure = "string \<Rightarrow> 'b ObjectHolder option"

record 'b ClassInstance =
  instance_class :: "'b Class"
  instance_fields :: "'b Closure"

text \<open>
  The state that a method body can read and change: the instances, by address, and
  the \<^verbatim>\<open>Context\<close> (an abstract class, the parameter \<open>'c\<close>). Running a body
  (\<^verbatim>\<open>Executable::Execute\<close>) takes the closure and the state, and gives a holder or
  an exception, and the new state; a body that does not return is not modelled.
\<close>

record ('b, 'c) world =
  instances :: "addr \<Rightarrow> 'b ClassInstance"
  ctx :: 'c

text \<open>
  The ways a function of \<^verbatim>\<open>runtime.cpp\<close>, or the body of a method, can fail to
  return: a \<^verbatim>\<open>std::runtime_error\<close> with its message, which is what \<^verbatim>\<open>Call\<close>,
  \<^verbatim>\<open>Equal\<close> and \<^verbatim>\<open>Less\<close> throw and what a body throws when it calls them; an
  exception of another type (the parameter \<open>'x\<close>); and the use of a null pointer,
  \<^verbatim>\<open>obj.TryAs<Bool>()->GetValue()\<close> on a result that is not a \<^verbatim>\<open>Bool\<close>. No function
  of \<^verbatim>\<open>runtime.cpp\<close> catches an exception: the exception of a body is the exception
  of its caller, as it is.
\<close>

datatype 'x exception = runtime_error string | other_exception 'x | null_dereference

type_synonym ('b, 'c, 'x) Executable =
  "'b \<Rightarrow> 'b Closure \<Rightarrow> ('b, 'c) world
     \<Rightarrow> ('x exception + 'b ObjectHolder) \<times> ('b, 'c) world"

text \<open>\<^verbatim>\<open>ObjectHolder::TryAs<T>\<close>: the object when it is of kind \<open>T\<close>, or the null pointer.\<close>

definition TryAs_Bool :: "'b ObjectHolder \<Rightarrow> bool option" where
  "TryAs_Bool h = (case h of Some (Bool b) \<Rightarrow> Some b | _ \<Rightarrow> None)"

definition TryAs_Number :: "'b ObjectHolder \<Rightarrow> int option" where
  "TryAs_Number h = (case h of Some (Number n) \<Rightarrow> Some n | _ \<Rightarrow> None)"

definition TryAs_String :: "'b ObjectHolder \<Rightarrow> string option" where
  "TryAs_String h = (case h of Some (String s) \<Rightarrow> Some s | _ \<Rightarrow> None)"

definition TryAs_ClassInstance :: "'b ObjectHolder \<Rightarrow> addr option" where
  "TryAs_ClassInstance h = (case h of Some (ClassInstanceRef a) \<Rightarrow> Some a | _ \<Rightarrow> None)"

text \<open>\<^verbatim>\<open>IsTrue\<close>, lines 46-63.\<close>

definition IsTrue :: "'b ObjectHolder \<Rightarrow> bool" where
  "IsTrue object =
     (if object \<noteq> None then
        (if TryAs_Bool object \<noteq> None \<and> the (TryAs_Bool object) then True
         else if TryAs_Number object \<noteq> None \<and> the (TryAs_Number object) \<noteq> 0 then True
         else if TryAs_String object \<noteq> None \<and> the (TryAs_String object) \<noteq> [] then True
         else False)
      else False)"

text \<open>\<^verbatim>\<open>ClassInstance::HasMethod\<close>, lines 76-84.\<close>

definition HasMethod :: "'b ClassInstance \<Rightarrow> string \<Rightarrow> nat \<Rightarrow> bool" where
  "HasMethod self method argument_count =
     (case GetMethod (instance_class self) method of
        Some p_method \<Rightarrow> argument_count = length (formal_params p_method)
      | None \<Rightarrow> False)"

text \<open>\<^verbatim>\<open>ClassInstance::Fields\<close>, lines 86-92.\<close>

definition Fields :: "'b ClassInstance \<Rightarrow> 'b Closure" where
  "Fields self = instance_fields self"

text \<open>
  \<^verbatim>\<open>ClassInstance::Call\<close>, lines 97-113, on the instance at the address \<open>this\<close>. The
  closure binds \<^verbatim>\<open>self\<close> to a holder that shares the instance, then each formal
  parameter, in order, to the actual argument of the same index. Line 108 returns what
  \<^verbatim>\<open>Execute\<close> returns, and an exception of the body leaves \<^verbatim>\<open>Call\<close> as it is. The
  \<open>None\<close> branch of the second \<^verbatim>\<open>GetMethod\<close> is the use of a null \<^verbatim>\<open>p_method\<close>;
  \<open>HasMethod\<close> excludes it.
\<close>

definition Call ::
  "('b, 'c, 'x) Executable \<Rightarrow> addr \<Rightarrow> string \<Rightarrow> 'b ObjectHolder list \<Rightarrow> ('b, 'c) world
     \<Rightarrow> ('x exception + 'b ObjectHolder) \<times> ('b, 'c) world" where
  "Call Execute this method actual_args w =
     (if HasMethod (instances w this) method (length actual_args) then
        (case GetMethod (instance_class (instances w this)) method of
           None \<Rightarrow> (Inl null_dereference, w)
         | Some p_method \<Rightarrow>
             (let closure =
                    fold (\<lambda>i c. c(formal_params p_method ! i \<mapsto> actual_args ! i))
                      [0..<length (formal_params p_method)]
                      (Map.empty(''self'' \<mapsto> Some (ClassInstanceRef this)))
              in Execute (body p_method) closure w))
      else (Inl (runtime_error
                   (''Call for an undefined method '' @ [CHR 0x22] @ method @ [CHR 0x22])), w))"

text \<open>
  The rules for built-in kinds, lines 167-185 of \<^verbatim>\<open>Equal\<close> and lines 198-216 of
  \<^verbatim>\<open>Less\<close>: both operands \<^verbatim>\<open>Bool\<close>, both \<^verbatim>\<open>Number\<close>, both \<^verbatim>\<open>String\<close>, or the throw.
  Strings compare as \<^verbatim>\<open>std::string\<close> does, lexicographically on bytes.
\<close>

definition Equal_builtin :: "'b ObjectHolder \<Rightarrow> 'b ObjectHolder \<Rightarrow> 'x exception + bool" where
  "Equal_builtin lhs rhs =
     (if TryAs_Bool lhs \<noteq> None \<and> TryAs_Bool rhs \<noteq> None
        then Inr (the (TryAs_Bool lhs) = the (TryAs_Bool rhs))
      else if TryAs_Number lhs \<noteq> None \<and> TryAs_Number rhs \<noteq> None
        then Inr (the (TryAs_Number lhs) = the (TryAs_Number rhs))
      else if TryAs_String lhs \<noteq> None \<and> TryAs_String rhs \<noteq> None
        then Inr (the (TryAs_String lhs) = the (TryAs_String rhs))
      else Inl (runtime_error ''Cannot compare objects for equality''))"

definition Less_builtin :: "'b ObjectHolder \<Rightarrow> 'b ObjectHolder \<Rightarrow> 'x exception + bool" where
  "Less_builtin lhs rhs =
     (if TryAs_Bool lhs \<noteq> None \<and> TryAs_Bool rhs \<noteq> None
        then Inr (the (TryAs_Bool lhs) < the (TryAs_Bool rhs))
      else if TryAs_Number lhs \<noteq> None \<and> TryAs_Number rhs \<noteq> None
        then Inr (the (TryAs_Number lhs) < the (TryAs_Number rhs))
      else if TryAs_String lhs \<noteq> None \<and> TryAs_String rhs \<noteq> None
        then Inr (the (TryAs_String lhs) < the (TryAs_String rhs))
      else Inl (runtime_error ''Cannot compare objects for less''))"

text \<open>
  The call of a protocol method, lines 161-163 and 192-194: the result of \<open>Call\<close> with
  the right operand as the only argument, read as a \<^verbatim>\<open>Bool\<close>.
\<close>

definition call_protocol ::
  "('b, 'c, 'x) Executable \<Rightarrow> addr \<Rightarrow> string \<Rightarrow> 'b ObjectHolder \<Rightarrow> ('b, 'c) world
     \<Rightarrow> ('x exception + bool) \<times> ('b, 'c) world" where
  "call_protocol Execute c_obj_lhs method rhs w =
     (case Call Execute c_obj_lhs method [rhs] w of
        (Inl e, w') \<Rightarrow> (Inl e, w')
      | (Inr obj, w') \<Rightarrow>
          (case TryAs_Bool obj of
             None \<Rightarrow> (Inl null_dereference, w')
           | Some b \<Rightarrow> (Inr b, w')))"

text \<open>\<^verbatim>\<open>Equal\<close>, lines 152-186.\<close>

definition Equal ::
  "('b, 'c, 'x) Executable \<Rightarrow> 'b ObjectHolder \<Rightarrow> 'b ObjectHolder \<Rightarrow> ('b, 'c) world
     \<Rightarrow> ('x exception + bool) \<times> ('b, 'c) world" where
  "Equal Execute lhs rhs w =
     (if lhs = None \<and> rhs = None then (Inr True, w)
      else
        (case TryAs_ClassInstance lhs of
           Some c_obj_lhs \<Rightarrow>
             if HasMethod (instances w c_obj_lhs) ''__eq__'' 1
               then call_protocol Execute c_obj_lhs ''__eq__'' rhs w
             else (Equal_builtin lhs rhs, w)
         | None \<Rightarrow> (Equal_builtin lhs rhs, w)))"

text \<open>\<^verbatim>\<open>Less\<close>, lines 188-217.\<close>

definition Less ::
  "('b, 'c, 'x) Executable \<Rightarrow> 'b ObjectHolder \<Rightarrow> 'b ObjectHolder \<Rightarrow> ('b, 'c) world
     \<Rightarrow> ('x exception + bool) \<times> ('b, 'c) world" where
  "Less Execute lhs rhs w =
     (case TryAs_ClassInstance lhs of
        Some c_obj_lhs \<Rightarrow>
          if HasMethod (instances w c_obj_lhs) ''__lt__'' 1
            then call_protocol Execute c_obj_lhs ''__lt__'' rhs w
          else (Less_builtin lhs rhs, w)
      | None \<Rightarrow> (Less_builtin lhs rhs, w))"

text \<open>
  The operators of C++ on results that may be exceptions: \<^verbatim>\<open>!e\<close>, and \<^verbatim>\<open>e1 || e2\<close>,
  which evaluates \<^verbatim>\<open>e2\<close> only when \<^verbatim>\<open>e1\<close> returned false, in the state \<^verbatim>\<open>e1\<close> left.
\<close>

definition cpp_not :: "('e + bool) \<times> 's \<Rightarrow> ('e + bool) \<times> 's" where
  "cpp_not r = (case r of (Inl e, s) \<Rightarrow> (Inl e, s) | (Inr b, s) \<Rightarrow> (Inr (\<not> b), s))"

definition cpp_or :: "('s \<Rightarrow> ('e + bool) \<times> 's) \<Rightarrow> ('s \<Rightarrow> ('e + bool) \<times> 's) \<Rightarrow> 's \<Rightarrow> ('e + bool) \<times> 's" where
  "cpp_or e1 e2 s =
     (case e1 s of
        (Inl e, s1) \<Rightarrow> (Inl e, s1)
      | (Inr b, s1) \<Rightarrow> if b then (Inr True, s1) else e2 s1)"

text \<open>\<^verbatim>\<open>NotEqual\<close>, \<^verbatim>\<open>Greater\<close>, \<^verbatim>\<open>LessOrEqual\<close>, \<^verbatim>\<open>GreaterOrEqual\<close>, lines 219-233.\<close>

definition NotEqual ::
  "('b, 'c, 'x) Executable \<Rightarrow> 'b ObjectHolder \<Rightarrow> 'b ObjectHolder \<Rightarrow> ('b, 'c) world
     \<Rightarrow> ('x exception + bool) \<times> ('b, 'c) world" where
  "NotEqual Execute lhs rhs w = cpp_not (Equal Execute lhs rhs w)"

definition Greater ::
  "('b, 'c, 'x) Executable \<Rightarrow> 'b ObjectHolder \<Rightarrow> 'b ObjectHolder \<Rightarrow> ('b, 'c) world
     \<Rightarrow> ('x exception + bool) \<times> ('b, 'c) world" where
  "Greater Execute lhs rhs w =
     cpp_not (cpp_or (Less Execute lhs rhs) (Equal Execute lhs rhs) w)"

definition LessOrEqual ::
  "('b, 'c, 'x) Executable \<Rightarrow> 'b ObjectHolder \<Rightarrow> 'b ObjectHolder \<Rightarrow> ('b, 'c) world
     \<Rightarrow> ('x exception + bool) \<times> ('b, 'c) world" where
  "LessOrEqual Execute lhs rhs w = cpp_or (Less Execute lhs rhs) (Equal Execute lhs rhs) w"

definition GreaterOrEqual ::
  "('b, 'c, 'x) Executable \<Rightarrow> 'b ObjectHolder \<Rightarrow> 'b ObjectHolder \<Rightarrow> ('b, 'c) world
     \<Rightarrow> ('x exception + bool) \<times> ('b, 'c) world" where
  "GreaterOrEqual Execute lhs rhs w = cpp_not (Less Execute lhs rhs w)"

section \<open>The lexer (lexer.h, lexer.cpp)\<close>

subsection \<open>Tokens\<close>

text \<open>
  The alternatives of \<^verbatim>\<open>TokenBase\<close>, lexer.h lines 13-58, each named after its struct
  in the namespace \<^verbatim>\<open>token_type\<close>. Equality of tokens (lexer.cpp lines 11-30) is
  equality of the alternative and of its value, which is equality of the datatype.
\<close>

datatype Token = token_Number int | token_Id string | token_Char char | token_String string
  | token_Class | token_Return | token_If | token_Else | token_Def | token_Newline
  | token_Print | token_Indent | token_Dedent | token_And | token_Or | token_Not
  | token_Eq | token_NotEq | token_LessOrEq | token_GreaterOrEq | token_None
  | token_True | token_False | token_Eof

definition DENT_SPACES :: int where
  "DENT_SPACES = 2"

subsection \<open>The input stream\<close>

text \<open>
  A \<^verbatim>\<open>std::istream\<close> as the lexer uses it: the characters not yet extracted and the
  state bits \<^verbatim>\<open>eofbit\<close> and \<^verbatim>\<open>failbit\<close>. The stream buffer can take back one character,
  as a string stream or a file stream does; every \<^verbatim>\<open>putback\<close> of the lexer that reaches
  the buffer returns the character extracted last, so \<^verbatim>\<open>badbit\<close> is never set and is
  left out.

  An input function first builds a sentry: on a stream that is not \<^verbatim>\<open>good()\<close> the
  sentry sets \<^verbatim>\<open>failbit\<close> and the function does nothing else. \<^verbatim>\<open>peek\<close> at the end of
  the characters sets \<^verbatim>\<open>eofbit\<close>; \<^verbatim>\<open>get\<close> there sets \<^verbatim>\<open>eofbit\<close> and \<^verbatim>\<open>failbit\<close>;
  \<^verbatim>\<open>putback\<close> clears \<^verbatim>\<open>eofbit\<close> before it builds its sentry. The result \<open>None\<close> is
  \<^verbatim>\<open>traits::eof()\<close>, or the false stream that \<^verbatim>\<open>get(ch)\<close> returns.
\<close>

record istream =
  rdbuf :: string
  eofbit :: bool
  failbit :: bool

definition good :: "istream \<Rightarrow> bool" where
  "good inp = (\<not> eofbit inp \<and> \<not> failbit inp)"

definition istream_peek :: "istream \<Rightarrow> char option \<times> istream" where
  "istream_peek inp =
     (if good inp then
        (case rdbuf inp of
           [] \<Rightarrow> (None, inp\<lparr>eofbit := True\<rparr>)
         | c # cs \<Rightarrow> (Some c, inp))
      else (None, inp\<lparr>failbit := True\<rparr>))"

definition istream_get :: "istream \<Rightarrow> char option \<times> istream" where
  "istream_get inp =
     (if good inp then
        (case rdbuf inp of
           [] \<Rightarrow> (None, inp\<lparr>eofbit := True, failbit := True\<rparr>)
         | c # cs \<Rightarrow> (Some c, inp\<lparr>rdbuf := cs\<rparr>))
      else (None, inp\<lparr>failbit := True\<rparr>))"

definition istream_putback :: "char \<Rightarrow> istream \<Rightarrow> istream" where
  "istream_putback c inp =
     (if \<not> failbit inp then inp\<lparr>rdbuf := c # rdbuf inp, eofbit := False\<rparr>
      else inp\<lparr>eofbit := False, failbit := True\<rparr>)"

text \<open>
  \<^verbatim>\<open>getline(in, str, '\n')\<close>, of which the lexer drops the string: the characters up
  to the first line feed are extracted, and the line feed with them; without a line
  feed all characters are extracted and \<^verbatim>\<open>eofbit\<close> is set; \<^verbatim>\<open>failbit\<close> is set when
  nothing was extracted.
\<close>

definition istream_getline :: "istream \<Rightarrow> istream" where
  "istream_getline inp =
     (if good inp then
        (case dropWhile (\<lambda>c. c \<noteq> CHR 0x0A) (rdbuf inp) of
           [] \<Rightarrow> inp\<lparr>rdbuf := [], eofbit := True, failbit := (rdbuf inp = [])\<rparr>
         | c # cs \<Rightarrow> inp\<lparr>rdbuf := cs\<rparr>)
      else inp\<lparr>failbit := True\<rparr>)"

text \<open>\<^verbatim>\<open>in.rdstate() != ios_base::eofbit\<close>: the state is not \<^verbatim>\<open>eofbit\<close> alone.\<close>

definition rdstate_not_eofbit :: "istream \<Rightarrow> bool" where
  "rdstate_not_eofbit inp = (\<not> (eofbit inp \<and> \<not> failbit inp))"

text \<open>
  The conversion of the \<^verbatim>\<open>int\<close> that \<^verbatim>\<open>peek()\<close> or \<^verbatim>\<open>get()\<close> returns to \<^verbatim>\<open>char\<close>:
  \<^verbatim>\<open>traits::eof()\<close>, which is -1, becomes the byte 255.
\<close>

definition to_char :: "char option \<Rightarrow> char" where
  "to_char c = (case c of None \<Rightarrow> CHR 0xFF | Some ch \<Rightarrow> ch)"

text \<open>The classification of \<^verbatim>\<open><cctype>\<close> in the C locale.\<close>

definition isdigit :: "char \<Rightarrow> bool" where
  "isdigit c = (48 \<le> (of_char c :: nat) \<and> (of_char c :: nat) \<le> 57)"

definition isalpha :: "char \<Rightarrow> bool" where
  "isalpha c = ((65 \<le> (of_char c :: nat) \<and> (of_char c :: nat) \<le> 90)
                \<or> (97 \<le> (of_char c :: nat) \<and> (of_char c :: nat) \<le> 122))"

definition isalnum :: "char \<Rightarrow> bool" where
  "isalnum c = (isalpha c \<or> isdigit c)"

definition ispunct :: "char \<Rightarrow> bool" where
  "ispunct c = ((33 \<le> (of_char c :: nat) \<and> (of_char c :: nat) \<le> 47)
                \<or> (58 \<le> (of_char c :: nat) \<and> (of_char c :: nat) \<le> 64)
                \<or> (91 \<le> (of_char c :: nat) \<and> (of_char c :: nat) \<le> 96)
                \<or> (123 \<le> (of_char c :: nat) \<and> (of_char c :: nat) \<le> 126))"

subsection \<open>The state of the lexer\<close>

text \<open>
  The members of \<^verbatim>\<open>Lexer\<close>, lexer.h lines 123-130: \<^verbatim>\<open>token_input_\<close>, \<^verbatim>\<open>vct_tokens_\<close>,
  \<^verbatim>\<open>current_token_\<close> (an iterator, here the index) and \<^verbatim>\<open>dent_\<close>. The \<^verbatim>\<open>int\<close>s are
  integers without a bound: \<^verbatim>\<open>dent_\<close> and the count of spaces stay below the number of
  characters of the input.
\<close>

record Lexer =
  token_input :: istream
  vct_tokens :: "Token list"
  current_token :: nat
  dent :: int

datatype lexer_exception = LexerError string | out_of_range

definition emplace_back :: "Token \<Rightarrow> Lexer \<Rightarrow> Lexer" where
  "emplace_back t lx = lx\<lparr>vct_tokens := vct_tokens lx @ [t]\<rparr>"

text \<open>
  \<^verbatim>\<open>!vct_tokens_.empty() && !vct_tokens_.back().Is<token_type::Newline>()\<close>, the test of
  lines 108 and 352.
\<close>

definition back_is_not_Newline :: "Lexer \<Rightarrow> bool" where
  "back_is_not_Newline lx = (vct_tokens lx \<noteq> [] \<and> last (vct_tokens lx) \<noteq> token_Newline)"

subsection \<open>The scanners\<close>

text \<open>\<^verbatim>\<open>Lexer::TrimSpaces\<close>, lines 122-126.\<close>

function TrimSpaces :: "istream \<Rightarrow> istream" where
  "TrimSpaces inp =
     (case istream_peek inp of
        (c, inp1) \<Rightarrow>
          if c = Some CHR '' '' then TrimSpaces (snd (istream_get inp1)) else inp1)"
  by pat_completeness auto
termination
  by (relation "measure (\<lambda>inp. length (rdbuf inp))")
     (auto simp: istream_peek_def istream_get_def split: if_splits list.splits)

declare TrimSpaces.simps [simp del]

text \<open>\<^verbatim>\<open>Lexer::CheckEof\<close>, lines 128-130.\<close>

definition CheckEof :: "istream \<Rightarrow> bool \<times> istream" where
  "CheckEof inp = (case istream_peek inp of (c, inp1) \<Rightarrow> (c = None, inp1))"

text \<open>
  \<^verbatim>\<open>Lexer::ParseDent\<close>, lines 132-164. First the loop of line 138, which counts the
  spaces; \<open>ch\<close> is \<open>None\<close> as long as no \<^verbatim>\<open>get(ch)\<close> has stored a character.
\<close>

function ParseDent_spaces :: "istream \<Rightarrow> char option \<Rightarrow> int \<Rightarrow> istream \<times> char option \<times> int" where
  "ParseDent_spaces inp ch spaces_processed =
     (case istream_get inp of
        (None, inp1) \<Rightarrow> (inp1, ch, spaces_processed)
      | (Some c, inp1) \<Rightarrow>
          if c = CHR '' '' then ParseDent_spaces inp1 (Some c) (spaces_processed + 1)
          else (inp1, Some c, spaces_processed))"
  by pat_completeness auto
termination
  by (relation "measure (\<lambda>(inp, ch, n). length (rdbuf inp))")
     (auto simp: istream_get_def split: if_splits list.splits)

declare ParseDent_spaces.simps [simp del]

text \<open>The loops of lines 149-153 and 158-162.\<close>

function ParseDent_indent :: "Lexer \<Rightarrow> int \<Rightarrow> Lexer" where
  "ParseDent_indent lx spaces_processed =
     (if spaces_processed > 0
        then ParseDent_indent ((emplace_back token_Indent lx)\<lparr>dent := dent lx + 1\<rparr>)
               (spaces_processed - DENT_SPACES)
      else lx)"
  by pat_completeness auto
termination
  by (relation "measure (\<lambda>(lx, n). nat n)") (auto simp: DENT_SPACES_def)

declare ParseDent_indent.simps [simp del]

function ParseDent_dedent :: "Lexer \<Rightarrow> int \<Rightarrow> Lexer" where
  "ParseDent_dedent lx spaces_processed =
     (if spaces_processed > 0
        then ParseDent_dedent ((emplace_back token_Dedent lx)\<lparr>dent := dent lx - 1\<rparr>)
               (spaces_processed - DENT_SPACES)
      else lx)"
  by pat_completeness auto
termination
  by (relation "measure (\<lambda>(lx, n). nat n)") (auto simp: DENT_SPACES_def)

declare ParseDent_dedent.simps [simp del]

text \<open>Lines 147-163: the comparison of the spaces with the level.\<close>

definition ParseDent_adjust :: "Lexer \<Rightarrow> int \<Rightarrow> Lexer" where
  "ParseDent_adjust lx spaces_processed =
     (if dent lx * DENT_SPACES < spaces_processed
        then ParseDent_indent lx (spaces_processed - dent lx * DENT_SPACES)
      else if dent lx * DENT_SPACES > spaces_processed
        then ParseDent_dedent lx (dent lx * DENT_SPACES - spaces_processed)
      else lx)"

definition ParseDent :: "Lexer \<Rightarrow> Lexer" where
  "ParseDent lx =
     (case CheckEof (token_input lx) of
        (True, inp0) \<Rightarrow> lx\<lparr>token_input := inp0\<rparr>
      | (False, inp0) \<Rightarrow>
          (case ParseDent_spaces inp0 None 0 of
             (inp1, ch, spaces_processed) \<Rightarrow>
               if rdstate_not_eofbit inp1 then
                 (let inp2 = istream_putback (to_char ch) inp1 in
                  if ch = Some CHR 0x0A then lx\<lparr>token_input := inp2\<rparr>
                  else ParseDent_adjust (lx\<lparr>token_input := inp2\<rparr>) spaces_processed)
               else ParseDent_adjust (lx\<lparr>token_input := inp1\<rparr>) spaces_processed))"

text \<open>
  \<^verbatim>\<open>Lexer::ParseComments\<close>, lines 359-368; it touches the stream only.
\<close>

definition ParseComments :: "istream \<Rightarrow> istream" where
  "ParseComments inp =
     (case istream_peek inp of
        (c, inp1) \<Rightarrow>
          if to_char c = CHR ''#'' then
            (let inp2 = istream_getline inp1 in
             if rdstate_not_eofbit inp2 then istream_putback (CHR 0x0A) inp2 else inp2)
          else inp1)"

text \<open>
  \<^verbatim>\<open>Lexer::ParseString\<close>, lines 166-228. The \<^verbatim>\<open>switch\<close> of lines 183-205 first, then
  the loop of lines 175-217, which returns the stream, the value of \<open>ch\<close> (the
  character that \<^verbatim>\<open>get(ch)\<close> stored last, or the value \<open>ch\<close> had before the loop when
  none was stored) and the string read, or throws. The messages are
  \<^verbatim>\<open>string(__func__) + " is failed at " + to_string(__LINE__)\<close>.
\<close>

definition ParseString_escape :: "char \<Rightarrow> char option" where
  "ParseString_escape esc_ch =
     (if esc_ch = CHR ''n'' then Some (CHR 0x0A)
      else if esc_ch = CHR ''t'' then Some (CHR 0x09)
      else if esc_ch = CHR ''r'' then Some (CHR 0x0D)
      else if esc_ch = CHR 0x22 then Some (CHR 0x22)
      else if esc_ch = CHR 0x27 then Some (CHR 0x27)
      else if esc_ch = CHR 0x5C then Some (CHR 0x5C)
      else None)"

function ParseString_loop ::
  "char \<Rightarrow> istream \<Rightarrow> char \<Rightarrow> string
     \<Rightarrow> lexer_exception + (istream \<times> char \<times> string)" where
  "ParseString_loop begin inp ch result =
     (case istream_get inp of
        (None, inp1) \<Rightarrow> Inr (inp1, ch, result)
      | (Some c, inp1) \<Rightarrow>
          if c = begin then Inr (inp1, c, result)
          else if c = CHR 0x5C then
            (case istream_get inp1 of
               (Some esc_ch, inp2) \<Rightarrow>
                 (case ParseString_escape esc_ch of
                    Some e \<Rightarrow> ParseString_loop begin inp2 c (result @ [e])
                  | None \<Rightarrow> Inl (LexerError ''ParseString is failed at 204''))
             | (None, inp2) \<Rightarrow> Inl (LexerError ''ParseString is failed at 208''))
          else if c = CHR 0x0A \<or> c = CHR 0x0D
            then Inl (LexerError ''ParseString is failed at 212'')
          else ParseString_loop begin inp1 c (result @ [c]))"
  by pat_completeness auto
termination
  by (relation "measure (\<lambda>(begin, inp, ch, result). length (rdbuf inp))")
     (auto simp: istream_get_def split: if_splits list.splits)

declare ParseString_loop.simps [simp del]

text \<open>
  After the loop, line 218 compares \<^verbatim>\<open>begin\<close> with \<^verbatim>\<open>ch\<close>. The local \<^verbatim>\<open>ch\<close> of line
  173 is not initialised: when the opening quote is the last character of the input, no
  \<^verbatim>\<open>get(ch)\<close> has stored a character and line 218 reads whatever the variable holds.
  That value is not decided here; it is the parameter \<open>ch0\<close> of \<open>ParseString\<close> and of
  every function that calls it. With the quote in \<open>ch0\<close> the lexer stores an empty
  string, with another character it throws. (After such a read the stream has failed
  and the main loop ends, so one value serves a whole run.) The branch for a failed
  \<^verbatim>\<open>get()\<close> of line 170 is not reached: \<open>CheckEof\<close> has found a character.
\<close>

definition ParseString :: "char \<Rightarrow> Lexer \<Rightarrow> lexer_exception + Lexer" where
  "ParseString ch0 lx =
     (case CheckEof (token_input lx) of
        (True, inp0) \<Rightarrow> Inr (lx\<lparr>token_input := inp0\<rparr>)
      | (False, inp0) \<Rightarrow>
          (case istream_get inp0 of
             (c, inp1) \<Rightarrow>
               (let begin = to_char c in
                if begin = CHR 0x27 \<or> begin = CHR 0x22 then
                  (case ParseString_loop begin inp1 ch0 [] of
                     Inl e \<Rightarrow> Inl e
                   | Inr (inp2, ch, result) \<Rightarrow>
                       if begin = ch
                         then Inr (emplace_back (token_String result) (lx\<lparr>token_input := inp2\<rparr>))
                       else Inl (LexerError ''ParseString is failed at 222''))
                else Inr (lx\<lparr>token_input := istream_putback begin inp1\<rparr>))))"

text \<open>
  \<^verbatim>\<open>Lexer::ParseKeywords\<close>, lines 230-288: the loop of lines 238-247, the chain of
  comparisons of lines 248-286, and the function.
\<close>

function ParseKeywords_loop :: "istream \<Rightarrow> string \<Rightarrow> istream \<times> string" where
  "ParseKeywords_loop inp keyword =
     (case istream_get inp of
        (None, inp1) \<Rightarrow> (inp1, keyword)
      | (Some ch, inp1) \<Rightarrow>
          if isalnum ch \<or> ch = CHR ''_'' then ParseKeywords_loop inp1 (keyword @ [ch])
          else (istream_putback ch inp1, keyword))"
  by pat_completeness auto
termination
  by (relation "measure (\<lambda>(inp, keyword). length (rdbuf inp))")
     (auto simp: istream_get_def split: if_splits list.splits)

declare ParseKeywords_loop.simps [simp del]

definition keyword_token :: "string \<Rightarrow> Token" where
  "keyword_token keyword =
     (if keyword = ''class'' then token_Class
      else if keyword = ''return'' then token_Return
      else if keyword = ''if'' then token_If
      else if keyword = ''else'' then token_Else
      else if keyword = ''def'' then token_Def
      else if keyword = ''print'' then token_Print
      else if keyword = ''and'' then token_And
      else if keyword = ''or'' then token_Or
      else if keyword = ''not'' then token_Not
      else if keyword = ''None'' then token_None
      else if keyword = ''True'' then token_True
      else if keyword = ''False'' then token_False
      else token_Id keyword)"

definition ParseKeywords :: "Lexer \<Rightarrow> Lexer" where
  "ParseKeywords lx =
     (case CheckEof (token_input lx) of
        (True, inp0) \<Rightarrow> lx\<lparr>token_input := inp0\<rparr>
      | (False, inp0) \<Rightarrow>
          (case istream_peek inp0 of
             (c, inp1) \<Rightarrow>
               if isalpha (to_char c) \<or> to_char c = CHR ''_'' then
                 (case ParseKeywords_loop inp1 [] of
                    (inp2, keyword) \<Rightarrow>
                      emplace_back (keyword_token keyword) (lx\<lparr>token_input := inp2\<rparr>))
               else lx\<lparr>token_input := inp1\<rparr>))"

text \<open>
  \<^verbatim>\<open>Lexer::ParseChars\<close>, lines 290-325. The four tests of lines 302-317 are
  \<^verbatim>\<open>(ch == c) && (in.peek() == '=')\<close> for four different \<open>c\<close>: \<^verbatim>\<open>peek\<close> runs only for
  the \<open>c\<close> that \<open>ch\<close> is, and when the next character is not \<^verbatim>\<open>=\<close> the other tests fail
  on \<open>ch\<close> and line 319 stores the character. \<open>ParseChars_pair\<close> is that test for one
  \<open>c\<close>. The branch for a failed \<^verbatim>\<open>get(ch)\<close> of line 295 is not reached.
\<close>

definition ParseChars_pair :: "char \<Rightarrow> Token \<Rightarrow> Lexer \<Rightarrow> Lexer" where
  "ParseChars_pair ch two lx =
     (case istream_peek (token_input lx) of
        (c, inp1) \<Rightarrow>
          if c = Some CHR ''=''
            then emplace_back two (lx\<lparr>token_input := snd (istream_get inp1)\<rparr>)
          else emplace_back (token_Char ch) (lx\<lparr>token_input := inp1\<rparr>))"

definition ParseChars :: "Lexer \<Rightarrow> Lexer" where
  "ParseChars lx =
     (case CheckEof (token_input lx) of
        (True, inp0) \<Rightarrow> lx\<lparr>token_input := inp0\<rparr>
      | (False, inp0) \<Rightarrow>
          (case istream_get inp0 of
             (None, inp1) \<Rightarrow> lx\<lparr>token_input := inp1\<rparr>
           | (Some ch, inp1) \<Rightarrow>
               if ispunct ch then
                 (if ch = CHR ''#''
                    then lx\<lparr>token_input := ParseComments (istream_putback ch inp1)\<rparr>
                  else if ch = CHR ''=''
                    then ParseChars_pair ch token_Eq (lx\<lparr>token_input := inp1\<rparr>)
                  else if ch = CHR ''!''
                    then ParseChars_pair ch token_NotEq (lx\<lparr>token_input := inp1\<rparr>)
                  else if ch = CHR ''>''
                    then ParseChars_pair ch token_GreaterOrEq (lx\<lparr>token_input := inp1\<rparr>)
                  else if ch = CHR ''<''
                    then ParseChars_pair ch token_LessOrEq (lx\<lparr>token_input := inp1\<rparr>)
                  else emplace_back (token_Char ch) (lx\<lparr>token_input := inp1\<rparr>))
               else lx\<lparr>token_input := istream_putback ch inp1\<rparr>))"

text \<open>
  \<^verbatim>\<open>Lexer::ParseNumbers\<close>, lines 327-346: the loop of lines 334-342, then \<^verbatim>\<open>stoi\<close> on
  a string of digits, which throws \<^verbatim>\<open>std::out_of_range\<close> above the largest \<^verbatim>\<open>int\<close>.
\<close>

function ParseNumbers_loop :: "istream \<Rightarrow> string \<Rightarrow> istream \<times> string" where
  "ParseNumbers_loop inp result =
     (case istream_get inp of
        (None, inp1) \<Rightarrow> (inp1, result)
      | (Some ch, inp1) \<Rightarrow>
          if isdigit ch then ParseNumbers_loop inp1 (result @ [ch])
          else (istream_putback ch inp1, result))"
  by pat_completeness auto
termination
  by (relation "measure (\<lambda>(inp, result). length (rdbuf inp))")
     (auto simp: istream_get_def split: if_splits list.splits)

declare ParseNumbers_loop.simps [simp del]

definition stoi :: "string \<Rightarrow> lexer_exception + int" where
  "stoi str =
     (let num = fold (\<lambda>c n. n * 10 + (int (of_char c) - 48)) str 0
      in if num > 2147483647 then Inl out_of_range else Inr num)"

definition ParseNumbers :: "Lexer \<Rightarrow> lexer_exception + Lexer" where
  "ParseNumbers lx =
     (case CheckEof (token_input lx) of
        (True, inp0) \<Rightarrow> Inr (lx\<lparr>token_input := inp0\<rparr>)
      | (False, inp0) \<Rightarrow>
          (case istream_peek inp0 of
             (c, inp1) \<Rightarrow>
               if isdigit (to_char c) then
                 (case ParseNumbers_loop inp1 [] of
                    (inp2, result) \<Rightarrow>
                      (case stoi result of
                         Inl e \<Rightarrow> Inl e
                       | Inr num \<Rightarrow>
                           Inr (emplace_back (token_Number num) (lx\<lparr>token_input := inp2\<rparr>))))
               else Inr (lx\<lparr>token_input := inp1\<rparr>)))"

text \<open>\<^verbatim>\<open>Lexer::ParseNewLine\<close>, lines 348-357.\<close>

definition ParseNewLine :: "Lexer \<Rightarrow> Lexer" where
  "ParseNewLine lx =
     (case istream_peek (token_input lx) of
        (c, inp1) \<Rightarrow>
          if to_char c = CHR 0x0A then
            (let lx1 = lx\<lparr>token_input := snd (istream_get inp1)\<rparr>;
                 lx2 = (if back_is_not_Newline lx1 then emplace_back token_Newline lx1 else lx1)
             in ParseDent lx2)
          else lx\<lparr>token_input := inp1\<rparr>)"

text \<open>
  \<^verbatim>\<open>Lexer::ParseTokens\<close>, lines 96-120. One round of the loop of lines 99-106; the
  loop itself, which leaves when the stream has failed or a scanner throws, and which
  does not return (\<open>None\<close>) when it goes round for ever; the loop of lines 112-115;
  and the function.
\<close>

definition ParseTokens_round :: "char \<Rightarrow> Lexer \<Rightarrow> lexer_exception + Lexer" where
  "ParseTokens_round ch0 lx =
     (case ParseString ch0 lx of
        Inl e \<Rightarrow> Inl e
      | Inr lx1 \<Rightarrow>
          (case ParseNumbers (ParseChars (ParseKeywords lx1)) of
             Inl e \<Rightarrow> Inl e
           | Inr lx2 \<Rightarrow>
               Inr (ParseNewLine (lx2\<lparr>token_input := TrimSpaces (token_input lx2)\<rparr>))))"

partial_function (option) ParseTokens_loop ::
  "char \<Rightarrow> Lexer \<Rightarrow> (lexer_exception + Lexer) option" where
  "ParseTokens_loop ch0 lx =
     (if failbit (token_input lx) then Some (Inr lx)
      else
        (case ParseTokens_round ch0 lx of
           Inl e \<Rightarrow> Some (Inl e)
         | Inr lx1 \<Rightarrow> ParseTokens_loop ch0 lx1))"

declare ParseTokens_loop.simps [code]

function ParseTokens_dedent :: "Lexer \<Rightarrow> Lexer" where
  "ParseTokens_dedent lx =
     (if dent lx > 0
        then ParseTokens_dedent ((emplace_back token_Dedent lx)\<lparr>dent := dent lx - 1\<rparr>)
      else lx)"
  by pat_completeness auto
termination
  by (relation "measure (\<lambda>lx. nat (dent lx))") (auto simp: emplace_back_def)

declare ParseTokens_dedent.simps [simp del]

definition ParseTokens_finish :: "Lexer \<Rightarrow> Lexer" where
  "ParseTokens_finish lx =
     (let lx1 = (if back_is_not_Newline lx then emplace_back token_Newline lx else lx);
          lx2 = ParseTokens_dedent lx1;
          lx3 = emplace_back token_Eof lx2
      in lx3\<lparr>current_token := 0\<rparr>)"

definition ParseTokens :: "char \<Rightarrow> Lexer \<Rightarrow> (lexer_exception + Lexer) option" where
  "ParseTokens ch0 lx =
     (case ParseTokens_loop ch0 (lx\<lparr>token_input := TrimSpaces (token_input lx)\<rparr>) of
        None \<Rightarrow> None
      | Some (Inl e) \<Rightarrow> Some (Inl e)
      | Some (Inr lx1) \<Rightarrow> Some (Inr (ParseTokens_finish lx1)))"

text \<open>
  The constructor \<^verbatim>\<open>Lexer::Lexer\<close>, lines 78-83, and a stream that holds a given text
  and has not been read yet (a \<^verbatim>\<open>std::istringstream\<close> of the text). The argument
  \<open>ch0\<close> is the value that line 218 reads from a \<^verbatim>\<open>ch\<close> that was never stored.
\<close>

definition Lexer_ctor :: "char \<Rightarrow> istream \<Rightarrow> (lexer_exception + Lexer) option" where
  "Lexer_ctor ch0 input =
     ParseTokens ch0 \<lparr>token_input = input, vct_tokens = [], current_token = 0, dent = 0\<rparr>"

definition istringstream :: "string \<Rightarrow> istream" where
  "istringstream str = \<lparr>rdbuf = str, eofbit = False, failbit = False\<rparr>"

text \<open>The tokens of a text: those of the lexer constructed on it.\<close>

definition tokens_of :: "char \<Rightarrow> string \<Rightarrow> (lexer_exception + Token list) option" where
  "tokens_of ch0 str =
     (case Lexer_ctor ch0 (istringstream str) of
        None \<Rightarrow> None
      | Some (Inl e) \<Rightarrow> Some (Inl e)
      | Some (Inr lx) \<Rightarrow> Some (Inr (vct_tokens lx)))"

section \<open>Example programs\<close>

text \<open>
  Executables, classes and a state on which the theorems below are run. The body of a
  method of the examples is a boolean literal; \<open>run_literal\<close> returns it and counts
  the run in the context, \<open>run_assign\<close> stores it in the field \<^verbatim>\<open>x\<close> of instance 0,
  and \<open>run_call_again\<close> is a body that calls the method \<^verbatim>\<open>get\<close> of \<^verbatim>\<open>self\<close> with one
  argument.
\<close>

definition run_literal :: "(bool, nat, unit) Executable" where
  "run_literal b closure w = (Inr (Some (Bool b)), w\<lparr>ctx := Suc (ctx w)\<rparr>)"

definition run_assign :: "(bool, nat, unit) Executable" where
  "run_assign b closure w =
     (Inr None, w\<lparr>instances := (instances w)
        (0 := (instances w 0)\<lparr>instance_fields := [''x'' \<mapsto> Some (Bool b)]\<rparr>)\<rparr>)"

definition run_call_again :: "(bool, nat, unit) Executable" where
  "run_call_again b closure w =
     (case closure ''self'' of
        Some (Some (ClassInstanceRef a)) \<Rightarrow> Call run_literal a ''get'' [None] w
      | _ \<Rightarrow> (Inr None, w))"

definition Ordered :: "bool Class" where
  "Ordered = Class_ctor ''Ordered''
     [\<lparr>name = ''__lt__'', formal_params = [''other''], body = False\<rparr>,
      \<lparr>name = ''__eq__'', formal_params = [''other''], body = True\<rparr>] None"

definition Plain :: "bool Class" where
  "Plain = Class_ctor ''Plain'' [\<lparr>name = ''get'', formal_params = [], body = True\<rparr>] None"

definition world0 :: "(bool, nat) world" where
  "world0 = \<lparr>instances = (\<lambda>a. \<lparr>instance_class = (if a = 0 then Ordered else Plain),
                                 instance_fields = Map.empty\<rparr>), ctx = 0\<rparr>"

definition method_f :: "unit Method" where
  "method_f = \<lparr>name = ''f'', formal_params = [], body = ()\<rparr>"

definition class_A :: "unit Class" where
  "class_A = Class_ctor ''A'' [method_f] None"

definition class_B :: "unit Class" where
  "class_B = Class_ctor ''B'' [] (Some class_A)"

definition class_C :: "unit Class" where
  "class_C = Class_ctor ''C'' [] (Some class_B)"

section \<open>Notions for the progress of the lexer\<close>

text \<open>
  A stream \<open>inp'\<close> follows a stream \<open>inp\<close> when its characters are a suffix of those
  of \<open>inp\<close> and it has failed if \<open>inp\<close> has: what every scanner does to the stream.
  The characters that some scanner extracts when they stand first in the stream are
  the letters, the digits, the punctuation characters, the space and the line feed.
\<close>

definition follows :: "istream \<Rightarrow> istream \<Rightarrow> bool" where
  "follows inp' inp = (suffix (rdbuf inp') (rdbuf inp) \<and> (failbit inp \<longrightarrow> failbit inp'))"

definition scanned :: "char \<Rightarrow> bool" where
  "scanned c = (isalpha c \<or> isdigit c \<or> ispunct c \<or> c = CHR '' '' \<or> c = CHR 0x0A)"

section \<open>Properties of the runtime\<close>

subsection \<open>Truthiness\<close>

text \<open>
  Claim C9. \<open>IsTrue\<close> is false for the empty holder, for a false boolean, a zero
  number, an empty string, a class and a class instance; it is true for a true boolean,
  a number other than zero and a string that is not empty, and for nothing else.
\<close>

theorem IsTrue_kinds:
  "IsTrue None = False \<and> IsTrue (Some (Bool b)) = b \<and> IsTrue (Some (Number n)) = (n \<noteq> 0)
   \<and> IsTrue (Some (String s)) = (s \<noteq> []) \<and> IsTrue (Some (ClassObject c)) = False
   \<and> IsTrue (Some (ClassInstanceRef a)) = False
   \<and> IsTrue v = (v = Some (Bool True) \<or> (\<exists>n. n \<noteq> 0 \<and> v = Some (Number n))
                   \<or> (\<exists>s. s \<noteq> [] \<and> v = Some (String s)))"
  by (auto simp: IsTrue_def TryAs_Bool_def TryAs_Number_def TryAs_String_def
      split: option.splits Object.splits)

subsection \<open>Equality of empty holders\<close>

text \<open>
  Claim C1, as amended. \<open>Equal\<close> of two empty holders returns true and leaves the state
  as it is. \<open>Equal\<close> of the empty holder and the number 0 does not return false: no
  rule for a built-in kind applies to an empty left operand, and the function throws
  the runtime error of line 185.
\<close>

theorem Equal_None_None_and_None_Number:
  "Equal Execute None None w = (Inr True, w)
   \<and> Equal Execute None (Some (Number 0)) w
       = (Inl (runtime_error ''Cannot compare objects for equality''), w)"
  by (simp add: Equal_def Equal_builtin_def TryAs_ClassInstance_def TryAs_Bool_def
      TryAs_Number_def TryAs_String_def)

text \<open>
  Claim C1, as stated, fails: on the empty holder and \<^verbatim>\<open>Number(0)\<close> the result of
  \<open>Equal\<close> is the exception, not the value false.
\<close>

theorem Equal_None_Number_counterexample:
  "fst (Equal run_literal None (Some (Number 0)) world0) \<noteq> Inr False
   \<and> fst (Equal run_literal None (Some (Number 0)) world0)
       = Inl (runtime_error ''Cannot compare objects for equality'')"
  by (simp add: Equal_def Equal_builtin_def TryAs_ClassInstance_def TryAs_Bool_def
      TryAs_Number_def TryAs_String_def)

subsection \<open>The dispatch table\<close>

text \<open>
  What \<open>GetMethod\<close> finds in a constructed class: the last of the class's own methods
  of that name; when there is none, the last method of that name among the methods the
  parent declares itself. The table of the parent is not read.
\<close>

lemma GetMethod_Class_ctor_fold:
  "GetMethod (Class_ctor nm ms par) n =
     fold (\<lambda>method vt. vt(name method \<mapsto> method)) ms
          (case par of None \<Rightarrow> Map.empty
           | Some p \<Rightarrow> fold (\<lambda>method vt. vt(name method \<mapsto> method)) (Class_methods p) Map.empty) n"
  by (simp add: GetMethod_def Class_ctor_def)

lemma fold_upd_find:
  "fold (\<lambda>method vt. vt(name method \<mapsto> method)) ms vt0 n =
     (case find (\<lambda>m. name m = n) (rev ms) of Some m \<Rightarrow> Some m | None \<Rightarrow> vt0 n)"
  by (induction ms rule: rev_induct) (auto split: option.splits)

lemma GetMethod_Class_ctor:
  "GetMethod (Class_ctor nm ms par) n =
     (case find (\<lambda>m. name m = n) (rev ms) of
        Some m \<Rightarrow> Some m
      | None \<Rightarrow> (case par of None \<Rightarrow> None
                  | Some p \<Rightarrow> find (\<lambda>m. name m = n) (rev (Class_methods p))))"
  by (simp add: GetMethod_Class_ctor_fold fold_upd_find split: option.splits)

text \<open>
  Claim C3 on three classes: \<^verbatim>\<open>A\<close> declares \<^verbatim>\<open>f\<close>, \<^verbatim>\<open>B\<close> has the parent \<^verbatim>\<open>A\<close> and
  \<^verbatim>\<open>C\<close> has the parent \<^verbatim>\<open>B\<close>, neither declaring a method. The table of \<^verbatim>\<open>B\<close> maps
  \<^verbatim>\<open>f\<close> to the method of \<^verbatim>\<open>A\<close>, and \<open>GetMethod\<close> on \<^verbatim>\<open>C\<close> returns the null pointer:
  the constructor reads \<^verbatim>\<open>parent_->methods_\<close>, not the parent's table.
\<close>

theorem GetMethod_grandparent_lost:
  "GetMethod class_A ''f'' = Some method_f \<and> GetMethod class_B ''f'' = Some method_f
   \<and> GetMethod class_C ''f'' = None"
  by (simp add: GetMethod_def class_A_def class_B_def class_C_def Class_ctor_def method_f_def)

subsection \<open>Method calls\<close>

text \<open>
  Claim C4, as amended. \<open>HasMethod\<close> holds exactly when the dispatch table of the
  instance's class has a method of that name whose number of formal parameters is the
  given count. When \<open>HasMethod\<close> fails for the name and the number of actual
  arguments, \<open>Call\<close> throws the runtime error of line 111, for an undefined method, and
  leaves the state as it is. When it holds, the outcome of \<open>Call\<close> is the outcome of the
  body of the method, run in the closure of \<^verbatim>\<open>self\<close> and the parameters, whether a value
  or an exception. So \<open>Call\<close> ends in the error of an undefined method of that name
  exactly when \<open>HasMethod\<close> fails or the body ends in that error.
\<close>

theorem HasMethod_Call_undefined:
  "(HasMethod i m k \<longleftrightarrow>
      (\<exists>p. GetMethod (instance_class i) m = Some p \<and> length (formal_params p) = k))
   \<and> (\<not> HasMethod (instances w this) m (length args) \<longrightarrow>
        Call Execute this m args w = (Inl (runtime_error (''Call for an undefined method '' @ [CHR 0x22] @ m @ [CHR 0x22])), w))
   \<and> (HasMethod (instances w this) m (length args)
        \<and> GetMethod (instance_class (instances w this)) m = Some p \<longrightarrow>
        Call Execute this m args w =
          Execute (body p)
            (fold (\<lambda>i c. c(formal_params p ! i \<mapsto> args ! i)) [0..<length (formal_params p)]
                     (Map.empty(''self'' \<mapsto> Some (ClassInstanceRef this)))) w)
   \<and> (fst (Call Execute this m args w) = Inl (runtime_error (''Call for an undefined method '' @ [CHR 0x22] @ m @ [CHR 0x22]))
        \<longleftrightarrow>
          (\<not> HasMethod (instances w this) m (length args)
           \<or> (\<exists>p. GetMethod (instance_class (instances w this)) m = Some p
                 \<and> fst (Execute (body p)
                        (fold (\<lambda>i c. c(formal_params p ! i \<mapsto> args ! i)) [0..<length (formal_params p)]
                     (Map.empty(''self'' \<mapsto> Some (ClassInstanceRef this)))) w)
                     = Inl (runtime_error (''Call for an undefined method '' @ [CHR 0x22] @ m @ [CHR 0x22])))))"
  by (auto simp: HasMethod_def Call_def Let_def split: option.splits)

text \<open>
  An instance of a class with one method \<^verbatim>\<open>get\<close> of no parameters: \<^verbatim>\<open>get\<close> with one
  argument and \<^verbatim>\<open>put\<close> are undefined, \<^verbatim>\<open>get\<close> with no argument runs its body, which
  returns.
\<close>

theorem HasMethod_Call_undefined_witness:
  "HasMethod (instances world0 1) ''get'' 0
   \<and> \<not> HasMethod (instances world0 1) ''get'' 1
   \<and> \<not> HasMethod (instances world0 1) ''put'' 0
   \<and> Call run_literal 1 ''get'' [None] world0 =
        (Inl (runtime_error (''Call for an undefined method '' @ [CHR 0x22] @ ''get'' @ [CHR 0x22])), world0)
   \<and> Call run_literal 1 ''put'' [] world0 =
        (Inl (runtime_error (''Call for an undefined method '' @ [CHR 0x22] @ ''put'' @ [CHR 0x22])), world0)
   \<and> Call run_literal 1 ''get'' [] world0 = (Inr (Some (Bool True)), world0\<lparr>ctx := 1\<rparr>)
   \<and> fst (Call run_literal 1 ''get'' [] world0)
        \<noteq> Inl (runtime_error (''Call for an undefined method '' @ [CHR 0x22] @ ''get'' @ [CHR 0x22]))"
proof -
  have get0: "GetMethod (instance_class (instances world0 1)) ''get''
                = Some \<lparr>name = ''get'', formal_params = [], body = True\<rparr>"
    by (simp add: world0_def Plain_def GetMethod_def Class_ctor_def)
  have put0: "GetMethod (instance_class (instances world0 1)) ''put'' = None"
    by (simp add: world0_def Plain_def GetMethod_def Class_ctor_def)
  have h0: "HasMethod (instances world0 1) ''get'' 0"
    using HasMethod_Call_undefined [where i = "instances world0 1" and m = "''get''" and k = 0,
        THEN conjunct1] get0 by simp
  have h1: "\<not> HasMethod (instances world0 1) ''get'' 1"
    using HasMethod_Call_undefined [where i = "instances world0 1" and m = "''get''" and k = 1,
        THEN conjunct1] get0 by simp
  have h2: "\<not> HasMethod (instances world0 1) ''put'' 0"
    using HasMethod_Call_undefined [where i = "instances world0 1" and m = "''put''" and k = 0,
        THEN conjunct1] put0 by simp
  have c1: "Call run_literal 1 ''get'' [None] world0 =
        (Inl (runtime_error (''Call for an undefined method '' @ [CHR 0x22] @ ''get'' @ [CHR 0x22])), world0)"
    using HasMethod_Call_undefined [where Execute = run_literal and this = 1 and m = "''get''"
        and args = "[None]" and w = world0, THEN conjunct2, THEN conjunct1] h1 by simp
  have c2: "Call run_literal 1 ''put'' [] world0 =
        (Inl (runtime_error (''Call for an undefined method '' @ [CHR 0x22] @ ''put'' @ [CHR 0x22])), world0)"
    using HasMethod_Call_undefined [where Execute = run_literal and this = 1 and m = "''put''"
        and args = "[]" and w = world0, THEN conjunct2, THEN conjunct1] h2 by simp
  have c3: "Call run_literal 1 ''get'' [] world0 = (Inr (Some (Bool True)), world0\<lparr>ctx := 1\<rparr>)"
    using HasMethod_Call_undefined [where Execute = run_literal and this = 1 and m = "''get''"
        and args = "[]" and w = world0
        and p = "\<lparr>name = ''get'', formal_params = [], body = True\<rparr>",
        THEN conjunct2, THEN conjunct2, THEN conjunct1] h0 get0
    by (simp add: run_literal_def world0_def)
  have c4: "fst (Call run_literal 1 ''get'' [] world0)
        \<noteq> Inl (runtime_error (''Call for an undefined method '' @ [CHR 0x22] @ ''get'' @ [CHR 0x22]))"
    using c3 by simp
  from h0 h1 h2 c1 c2 c3 c4 show ?thesis by blast
qed

text \<open>
  Claim C4, as stated, fails. The method \<^verbatim>\<open>get\<close> of instance 1 has no parameter, and
  \<open>run_call_again\<close> is a body that calls \<^verbatim>\<open>get\<close> on \<^verbatim>\<open>self\<close> with one argument. The
  inner call throws the error of an undefined method \<^verbatim>\<open>get\<close>; it leaves the body and
  the outer \<open>Call\<close> of \<^verbatim>\<open>get\<close> with no argument, for which \<open>HasMethod\<close> holds.
\<close>

theorem Call_undefined_counterexample:
  "HasMethod (instances world0 1) ''get'' 0
   \<and> fst (Call run_call_again 1 ''get'' [] world0)
       = Inl (runtime_error (''Call for an undefined method '' @ [CHR 0x22] @ ''get'' @ [CHR 0x22]))"
  by (simp add: HasMethod_def Call_def run_call_again_def world0_def Plain_def GetMethod_def
      Class_ctor_def)

subsection \<open>The derived comparisons\<close>

text \<open>
  Claim C5. With \<open>e\<close>, \<open>lt\<close> and \<open>eq\<close> the booleans that \<open>Equal\<close> and \<open>Less\<close> return:
  \<open>NotEqual\<close> returns \<open>\<not> e\<close>, \<open>GreaterOrEqual\<close> returns \<open>\<not> lt\<close>, \<open>Greater\<close> returns
  \<open>\<not> (lt \<or> eq)\<close> and \<open>LessOrEqual\<close> returns \<open>lt \<or> eq\<close>. Each operator calls \<open>Less\<close> and
  \<open>Equal\<close> again: the \<open>Equal\<close> of \<open>Greater\<close> and \<open>LessOrEqual\<close> runs in the state that
  \<open>Less\<close> left (and only when \<open>Less\<close> returned false, as \<^verbatim>\<open>||\<close> evaluates), and the
  state after the operator is the state after these calls. An exception of \<open>Less\<close> or
  \<open>Equal\<close> is the operator's.
\<close>

theorem derived_comparisons:
  "(Equal Execute lhs rhs w = (Inr e, w1) \<longrightarrow>
      NotEqual Execute lhs rhs w = (Inr (\<not> e), w1))
   \<and> (Less Execute lhs rhs w = (Inr lt, w1) \<longrightarrow>
      GreaterOrEqual Execute lhs rhs w = (Inr (\<not> lt), w1))
   \<and> (Less Execute lhs rhs w = (Inr lt, w1) \<and> Equal Execute lhs rhs w1 = (Inr eq, w2) \<longrightarrow>
      Greater Execute lhs rhs w = (Inr (\<not> (lt \<or> eq)), if lt then w1 else w2)
      \<and> LessOrEqual Execute lhs rhs w = (Inr (lt \<or> eq), if lt then w1 else w2))
   \<and> (Less Execute lhs rhs w = (Inr True, w1) \<longrightarrow>
      Greater Execute lhs rhs w = (Inr False, w1)
      \<and> LessOrEqual Execute lhs rhs w = (Inr True, w1))
   \<and> (Equal Execute lhs rhs w = (Inl x, w1) \<longrightarrow>
      NotEqual Execute lhs rhs w = (Inl x, w1))
   \<and> (Less Execute lhs rhs w = (Inl x, w1) \<longrightarrow>
      GreaterOrEqual Execute lhs rhs w = (Inl x, w1)
      \<and> Greater Execute lhs rhs w = (Inl x, w1)
      \<and> LessOrEqual Execute lhs rhs w = (Inl x, w1))
   \<and> (Less Execute lhs rhs w = (Inr False, w1) \<and> Equal Execute lhs rhs w1 = (Inl x, w2) \<longrightarrow>
      Greater Execute lhs rhs w = (Inl x, w2)
      \<and> LessOrEqual Execute lhs rhs w = (Inl x, w2))"
  by (auto simp: NotEqual_def Greater_def LessOrEqual_def GreaterOrEqual_def
      cpp_not_def cpp_or_def)

text \<open>
  The instance at address 0 of \<open>world0\<close> overrides both protocol methods; every run of a
  body adds one to the context, so the context counts the runs.
\<close>

lemma Ordered_lt:
  "GetMethod (instance_class (instances world0 0)) ''__lt__''
     = Some \<lparr>name = ''__lt__'', formal_params = [''other''], body = False\<rparr>"
  by (simp add: world0_def Ordered_def GetMethod_def Class_ctor_def)

lemma Ordered_eq:
  "GetMethod (instance_class (instances world0 0)) ''__eq__''
     = Some \<lparr>name = ''__eq__'', formal_params = [''other''], body = True\<rparr>"
  by (simp add: world0_def Ordered_def GetMethod_def Class_ctor_def)

lemma world0_ctx: "world0\<lparr>ctx := 0\<rparr> = world0"
  by (simp add: world0_def)

lemma Less_Ordered:
  "Less run_literal (Some (ClassInstanceRef 0)) None (world0\<lparr>ctx := n\<rparr>)
     = (Inr False, world0\<lparr>ctx := Suc n\<rparr>)"
  by (simp add: Less_def TryAs_ClassInstance_def HasMethod_def Ordered_lt call_protocol_def
      Call_def run_literal_def TryAs_Bool_def)

lemma Equal_Ordered:
  "Equal run_literal (Some (ClassInstanceRef 0)) None (world0\<lparr>ctx := n\<rparr>)
     = (Inr True, world0\<lparr>ctx := Suc n\<rparr>)"
  by (simp add: Equal_def TryAs_ClassInstance_def HasMethod_def Ordered_eq call_protocol_def
      Call_def run_literal_def TryAs_Bool_def)

text \<open>
  On that instance \<open>Less\<close> returns false and \<open>Equal\<close> true: \<open>NotEqual\<close> and
  \<open>GreaterOrEqual\<close> run one body, \<open>Greater\<close> and \<open>LessOrEqual\<close> run two.
\<close>

theorem derived_comparisons_witness:
  "NotEqual run_literal (Some (ClassInstanceRef 0)) None world0 = (Inr False, world0\<lparr>ctx := 1\<rparr>)
   \<and> GreaterOrEqual run_literal (Some (ClassInstanceRef 0)) None world0 = (Inr True, world0\<lparr>ctx := 1\<rparr>)
   \<and> Greater run_literal (Some (ClassInstanceRef 0)) None world0 = (Inr False, world0\<lparr>ctx := 2\<rparr>)
   \<and> LessOrEqual run_literal (Some (ClassInstanceRef 0)) None world0 = (Inr True, world0\<lparr>ctx := 2\<rparr>)"
proof -
  have lt: "Less run_literal (Some (ClassInstanceRef 0)) None world0 = (Inr False, world0\<lparr>ctx := 1\<rparr>)"
    using Less_Ordered [of 0] by (simp add: world0_ctx)
  have eq0: "Equal run_literal (Some (ClassInstanceRef 0)) None world0 = (Inr True, world0\<lparr>ctx := 1\<rparr>)"
    using Equal_Ordered [of 0] by (simp add: world0_ctx)
  have eq1: "Equal run_literal (Some (ClassInstanceRef 0)) None (world0\<lparr>ctx := 1\<rparr>)
               = (Inr True, world0\<lparr>ctx := 2\<rparr>)"
    using Equal_Ordered [of 1] by (simp add: numeral_2_eq_2)
  note T = derived_comparisons [where Execute = run_literal and lhs = "Some (ClassInstanceRef 0)"
      and rhs = None and w = world0 and ?w1.0 = "world0\<lparr>ctx := 1\<rparr>"
      and ?w2.0 = "world0\<lparr>ctx := 2\<rparr>" and lt = False and e = True and eq = True]
  from T lt eq0 eq1 show ?thesis by simp
qed

subsection \<open>Less on class instances\<close>

text \<open>
  Claim C6. When the class of the left operand has the method \<^verbatim>\<open>__lt__\<close> with one
  parameter, \<open>Less\<close> calls it with the right operand as the only argument (the body
  runs in the closure that binds \<^verbatim>\<open>self\<close> to the instance and the parameter to the
  right operand) and returns the boolean it produces, in the state it leaves. When the
  class has no such method and the right operand is a class instance too, \<open>Less\<close>
  throws the runtime error of line 216 and leaves the state as it is.
\<close>

theorem Less_instance_override:
  "(HasMethod (instances w a) ''__lt__'' 1
      \<and> Call Execute a ''__lt__'' [rhs] w = (Inr (Some (Bool b)), w') \<longrightarrow>
      Less Execute (Some (ClassInstanceRef a)) rhs w = (Inr b, w'))
   \<and> (GetMethod (instance_class (instances w a)) ''__lt__'' = Some p \<and> formal_params p = [x]
      \<and> Execute (body p) (Map.empty(''self'' \<mapsto> Some (ClassInstanceRef a), x \<mapsto> rhs)) w
            = (Inr (Some (Bool b)), w') \<longrightarrow>
      Less Execute (Some (ClassInstanceRef a)) rhs w = (Inr b, w'))
   \<and> (\<not> HasMethod (instances w a) ''__lt__'' 1 \<longrightarrow>
      Less Execute (Some (ClassInstanceRef a)) (Some (ClassInstanceRef a')) w
        = (Inl (runtime_error ''Cannot compare objects for less''), w))"
  by (simp add: Less_def TryAs_ClassInstance_def HasMethod_def call_protocol_def Call_def
      TryAs_Bool_def Less_builtin_def TryAs_Number_def TryAs_String_def)

text \<open>
  Instance 0 has the override, instance 1 has not.
\<close>

theorem Less_instance_override_witness:
  "Less run_literal (Some (ClassInstanceRef 0)) (Some (ClassInstanceRef 1)) world0
     = (Inr False, world0\<lparr>ctx := 1\<rparr>)
   \<and> Less run_literal (Some (ClassInstanceRef 1)) (Some (ClassInstanceRef 0)) world0
     = (Inl (runtime_error ''Cannot compare objects for less''), world0)"
proof -
  have g: "GetMethod (instance_class (instances world0 0)) ''__lt__''
             = Some \<lparr>name = ''__lt__'', formal_params = [''other''], body = False\<rparr>"
    by (rule Ordered_lt)
  have r: "run_literal False (Map.empty(''self'' \<mapsto> Some (ClassInstanceRef 0),
               ''other'' \<mapsto> Some (ClassInstanceRef 1))) world0
             = (Inr (Some (Bool False)), world0\<lparr>ctx := 1\<rparr>)"
    by (simp add: run_literal_def world0_def)
  have n: "\<not> HasMethod (instances world0 1) ''__lt__'' 1"
    by (simp add: HasMethod_def world0_def Plain_def GetMethod_def Class_ctor_def)
  note T = Less_instance_override [where Execute = run_literal and w = world0]
  have a: "Less run_literal (Some (ClassInstanceRef 0)) (Some (ClassInstanceRef 1)) world0
     = (Inr False, world0\<lparr>ctx := 1\<rparr>)"
    using T [where a = 0 and rhs = "Some (ClassInstanceRef 1)" and b = False
        and w' = "world0\<lparr>ctx := 1\<rparr>" and x = "''other''"
        and p = "\<lparr>name = ''__lt__'', formal_params = [''other''], body = False\<rparr>",
        THEN conjunct2, THEN conjunct1] g r by simp
  have b: "Less run_literal (Some (ClassInstanceRef 1)) (Some (ClassInstanceRef 0)) world0
     = (Inl (runtime_error ''Cannot compare objects for less''), world0)"
    using T [where a = 1 and a' = 0, THEN conjunct2, THEN conjunct2] n by simp
  from a b show ?thesis by simp
qed

subsection \<open>A failed call changes nothing\<close>

text \<open>
  Claim C10. When \<open>HasMethod\<close> fails for the name and the number of arguments, \<open>Call\<close>
  throws its runtime error, the state after it is the state before it, so the fields of
  the instance are unchanged, and the outcome is the same whatever running a body
  would do: no body is run.
\<close>

theorem Call_undefined_atomic:
  "\<not> HasMethod (instances w this) m (length args) \<Longrightarrow>
     (\<exists>msg. fst (Call Execute this m args w) = Inl (runtime_error msg))
     \<and> snd (Call Execute this m args w) = w
     \<and> Fields (instances (snd (Call Execute this m args w)) this) = Fields (instances w this)
     \<and> Call Execute this m args w = Call Execute' this m args w"
  by (simp add: Call_def)

text \<open>
  The method \<^verbatim>\<open>__lt__\<close> of instance 0 takes one parameter. Called with no argument,
  nothing changes, also with the executable \<open>run_assign\<close> that assigns a field of
  instance 0; called with one argument, the field is assigned.
\<close>

theorem Call_undefined_atomic_witness:
  "\<not> HasMethod (instances world0 0) ''__lt__'' 0
   \<and> snd (Call run_assign 0 ''__lt__'' [] world0) = world0
   \<and> Fields (instances (snd (Call run_assign 0 ''__lt__'' [] world0)) 0) = Map.empty
   \<and> Call run_assign 0 ''__lt__'' [] world0 = Call run_literal 0 ''__lt__'' [] world0
   \<and> Fields (instances (snd (Call run_assign 0 ''__lt__'' [None] world0)) 0)
        = [''x'' \<mapsto> Some (Bool False)]"
proof -
  have g: "GetMethod (instance_class (instances world0 0)) ''__lt__''
             = Some \<lparr>name = ''__lt__'', formal_params = [''other''], body = False\<rparr>"
    by (rule Ordered_lt)
  have h: "\<not> HasMethod (instances world0 0) ''__lt__'' (length ([] :: bool ObjectHolder list))"
    using g by (simp add: HasMethod_def)
  have f0: "Fields (instances world0 0) = Map.empty"
    by (simp add: Fields_def world0_def)
  have ran: "Fields (instances (snd (Call run_assign 0 ''__lt__'' [None] world0)) 0)
        = [''x'' \<mapsto> Some (Bool False)]"
    using g by (simp add: Call_def HasMethod_def run_assign_def Fields_def)
  note T = Call_undefined_atomic [OF h, of run_assign run_literal]
  from T have t1: "snd (Call run_assign 0 ''__lt__'' [] world0) = world0"
    by blast
  from T [THEN conjunct2, THEN conjunct2, THEN conjunct1] f0
  have t2: "Fields (instances (snd (Call run_assign 0 ''__lt__'' [] world0)) 0) = Map.empty"
    by simp
  from T have t3: "Call run_assign 0 ''__lt__'' [] world0 = Call run_literal 0 ''__lt__'' [] world0"
    by blast
  from h t1 t2 t3 ran show ?thesis by simp

qed

section \<open>Properties of the lexer\<close>

text \<open>
  The model on the example of the specification: the text \<^verbatim>\<open>if a:\<close>, then \<^verbatim>\<open>b\<close> and
  \<^verbatim>\<open>c\<close> on lines of their own, each after two spaces.
\<close>

lemma tokens_of_spec_example:
  "tokens_of ch0 (''if a:'' @ [CHR 0x0A] @ ''  b'' @ [CHR 0x0A] @ ''  c'' @ [CHR 0x0A])
     = Some (Inr [token_If, token_Id ''a'', token_Char CHR '':'', token_Newline, token_Indent,
                  token_Id ''b'', token_Newline, token_Id ''c'', token_Newline, token_Dedent,
                  token_Eof])"
  by code_simp

subsection \<open>Indentation\<close>

text \<open>
  The loops of \<open>ParseDent\<close> in closed form. For a count \<open>n > 0\<close> of spaces to make up,
  the loop runs while the count is positive and takes two off in each round: it adds
  \<open>(n + 1) div 2\<close> tokens, one more than \<open>n div 2\<close> when \<open>n\<close> is odd.
\<close>

lemma ParseDent_indent_eq:
  "ParseDent_indent lx n =
     (if n > 0 then lx\<lparr>vct_tokens := vct_tokens lx @ replicate (nat ((n + 1) div 2)) token_Indent,
                         dent := dent lx + (n + 1) div 2\<rparr>
      else lx)"
proof (induction lx n rule: ParseDent_indent.induct)
  case (1 lx n)
  show ?case
  proof (cases "n > 0")
    case False
    then show ?thesis by (subst ParseDent_indent.simps) simp
  next
    case pos: True
    have k: "nat ((n + 1) div 2) = Suc (nat ((n - 2 + 1) div 2))"
      using pos by (simp add: nat_add_distrib)
    have "ParseDent_indent lx n =
            ParseDent_indent ((emplace_back token_Indent lx)\<lparr>dent := dent lx + 1\<rparr>) (n - DENT_SPACES)"
      using pos by (subst ParseDent_indent.simps) simp
    also note 1 [OF pos]
    finally have unfolded: "ParseDent_indent lx n =
        (if 0 < n - DENT_SPACES
         then (emplace_back token_Indent lx)\<lparr>dent := dent lx + 1,
                vct_tokens := vct_tokens ((emplace_back token_Indent lx)\<lparr>dent := dent lx + 1\<rparr>)
                  @ replicate (nat ((n - DENT_SPACES + 1) div 2)) token_Indent,
                dent := dent ((emplace_back token_Indent lx)\<lparr>dent := dent lx + 1\<rparr>)
                  + (n - DENT_SPACES + 1) div 2\<rparr>
         else (emplace_back token_Indent lx)\<lparr>dent := dent lx + 1\<rparr>)" .
    have k2: "(n + 1) div 2 = 1 + (n - 1) div 2"
      by presburger
    have k3: "\<not> 2 < n \<Longrightarrow> (n - 1) div 2 = 0"
      using pos by presburger
    show ?thesis
      using pos k k2 k3
      by (simp add: unfolded DENT_SPACES_def emplace_back_def)
  qed
qed

lemma ParseDent_dedent_eq:
  "ParseDent_dedent lx n =
     (if n > 0 then lx\<lparr>vct_tokens := vct_tokens lx @ replicate (nat ((n + 1) div 2)) token_Dedent,
                         dent := dent lx - (n + 1) div 2\<rparr>
      else lx)"
proof (induction lx n rule: ParseDent_dedent.induct)
  case (1 lx n)
  show ?case
  proof (cases "n > 0")
    case False
    then show ?thesis by (subst ParseDent_dedent.simps) simp
  next
    case pos: True
    have k: "nat ((n + 1) div 2) = Suc (nat ((n - 2 + 1) div 2))"
      using pos by (simp add: nat_add_distrib)
    have "ParseDent_dedent lx n =
            ParseDent_dedent ((emplace_back token_Dedent lx)\<lparr>dent := dent lx - 1\<rparr>) (n - DENT_SPACES)"
      using pos by (subst ParseDent_dedent.simps) simp
    also note 1 [OF pos]
    finally have unfolded: "ParseDent_dedent lx n =
        (if 0 < n - DENT_SPACES
         then (emplace_back token_Dedent lx)\<lparr>dent := dent lx - 1,
                vct_tokens := vct_tokens ((emplace_back token_Dedent lx)\<lparr>dent := dent lx - 1\<rparr>)
                  @ replicate (nat ((n - DENT_SPACES + 1) div 2)) token_Dedent,
                dent := dent ((emplace_back token_Dedent lx)\<lparr>dent := dent lx - 1\<rparr>)
                  - (n - DENT_SPACES + 1) div 2\<rparr>
         else (emplace_back token_Dedent lx)\<lparr>dent := dent lx - 1\<rparr>)" .
    have k2: "(n + 1) div 2 = 1 + (n - 1) div 2"
      by presburger
    have k3: "\<not> 2 < n \<Longrightarrow> (n - 1) div 2 = 0"
      using pos by presburger
    show ?thesis
      using pos k k2 k3
      by (simp add: unfolded DENT_SPACES_def emplace_back_def)
  qed
qed


lemma ParseDent_spaces_run:
  "good inp \<Longrightarrow> rdbuf inp = replicate s CHR '' '' @ c # rest \<Longrightarrow> c \<noteq> CHR '' '' \<Longrightarrow>
   ParseDent_spaces inp ch n = (inp\<lparr>rdbuf := rest\<rparr>, Some c, n + int s)"
proof (induction s arbitrary: inp ch n)
  case 0
  then show ?case
    by (subst ParseDent_spaces.simps) (simp add: istream_get_def)
next
  case (Suc s)
  let ?inp1 = "inp\<lparr>rdbuf := replicate s CHR '' '' @ c # rest\<rparr>"
  from Suc.prems have g: "istream_get inp = (Some CHR '' '', ?inp1)"
    by (simp add: istream_get_def)
  from Suc.prems have "good ?inp1" "rdbuf ?inp1 = replicate s CHR '' '' @ c # rest"
    by (simp_all add: good_def)
  from Suc.IH [OF this Suc.prems(3)] g show ?case
    by (subst ParseDent_spaces.simps) simp
qed

lemma ParseDent_spaces_eof:
  "good inp \<Longrightarrow> rdbuf inp = replicate s CHR '' '' \<Longrightarrow>
   ParseDent_spaces inp ch n =
     (inp\<lparr>rdbuf := [], eofbit := True, failbit := True\<rparr>,
      if s = 0 then ch else Some CHR '' '', n + int s)"
proof (induction s arbitrary: inp ch n)
  case 0
  then show ?case
    by (subst ParseDent_spaces.simps) (simp add: istream_get_def)
next
  case (Suc s)
  let ?inp1 = "inp\<lparr>rdbuf := replicate s CHR '' ''\<rparr>"
  from Suc.prems have g: "istream_get inp = (Some CHR '' '', ?inp1)"
    by (simp add: istream_get_def)
  from Suc.prems have "good ?inp1" "rdbuf ?inp1 = replicate s CHR '' ''"
    by (simp_all add: good_def)
  from Suc.IH [OF this] g show ?case
    by (subst ParseDent_spaces.simps) simp
qed

lemma istream_eofbit_same: "\<not> eofbit inp \<Longrightarrow> inp\<lparr>eofbit := False\<rparr> = inp"
  by (cases inp) simp

lemma istream_all_updated:
  "(inp :: istream)\<lparr>rdbuf := b, eofbit := e, failbit := f\<rparr> = \<lparr>rdbuf = b, eofbit = e, failbit = f\<rparr>"
  by (cases inp) simp

lemma CheckEof_char:
  "good inp \<Longrightarrow> rdbuf inp = c # rest \<Longrightarrow> CheckEof inp = (False, inp)"
  by (simp add: CheckEof_def istream_peek_def)

text \<open>
  \<open>ParseDent\<close> on a line of \<open>s\<close> spaces and then a character that is neither a space
  nor a line feed, at the level \<open>dent lx\<close>: the new level is \<open>(s + 1) div 2\<close> when the
  line is indented more than the level (the count of units is rounded up) and
  \<open>s div 2\<close> otherwise (it is truncated), and the tokens added are the \<open>Indent\<close>s or
  \<open>Dedent\<close>s from the old level to the new one.
\<close>

lemma ParseDent_line:
  assumes "good (token_input lx)"
    and "rdbuf (token_input lx) = replicate s CHR '' '' @ c # rest"
    and "c \<noteq> CHR '' ''" and "c \<noteq> CHR 0x0A"
  shows "ParseDent lx =
           ParseDent_adjust (lx\<lparr>token_input := (token_input lx)\<lparr>rdbuf := c # rest\<rparr>\<rparr>) (int s)"
proof -
  from assms obtain c' rest' where "rdbuf (token_input lx) = c' # rest'"
    by (cases s) auto
  from CheckEof_char [OF assms(1) this]
  have e: "CheckEof (token_input lx) = (False, token_input lx)" .
  have sp: "ParseDent_spaces (token_input lx) None 0
              = ((token_input lx)\<lparr>rdbuf := rest\<rparr>, Some c, int s)"
    using ParseDent_spaces_run [OF assms(1-3), of None 0] by simp
  from assms(1,4) show ?thesis
    by (simp add: ParseDent_def e sp rdstate_not_eofbit_def istream_putback_def good_def to_char_def
        istream_eofbit_same)
qed

lemma ParseDent_line_tokens:
  assumes "good (token_input lx)"
    and "rdbuf (token_input lx) = replicate s CHR '' '' @ c # rest"
    and "c \<noteq> CHR '' ''" and "c \<noteq> CHR 0x0A" and "0 \<le> dent lx"
  shows "vct_tokens (ParseDent lx) =
           vct_tokens lx @
             (if dent lx * 2 < int s
                then replicate (nat ((int s + 1) div 2 - dent lx)) token_Indent
              else replicate (nat (dent lx - int s div 2)) token_Dedent)"
    and "dent (ParseDent lx) = (if dent lx * 2 < int s then (int s + 1) div 2 else int s div 2)"
proof -
  have i: "dent lx * 2 < int s \<Longrightarrow> (int s - dent lx * 2 + 1) div 2 = (int s + 1) div 2 - dent lx"
    by linarith
  have d: "int s < dent lx * 2 \<Longrightarrow> (dent lx * 2 - int s + 1) div 2 = dent lx - int s div 2"
    by linarith
  have q: "\<not> dent lx * 2 < int s \<Longrightarrow> \<not> int s < dent lx * 2 \<Longrightarrow> dent lx - int s div 2 = 0"
    by linarith
  show "vct_tokens (ParseDent lx) =
           vct_tokens lx @
             (if dent lx * 2 < int s
                then replicate (nat ((int s + 1) div 2 - dent lx)) token_Indent
              else replicate (nat (dent lx - int s div 2)) token_Dedent)"
    using i d q
    by (simp add: ParseDent_line [OF assms(1-4)] ParseDent_adjust_def ParseDent_indent_eq
        ParseDent_dedent_eq DENT_SPACES_def)
  show "dent (ParseDent lx) = (if dent lx * 2 < int s then (int s + 1) div 2 else int s div 2)"
    using i d q
    by (simp add: ParseDent_line [OF assms(1-4)] ParseDent_adjust_def ParseDent_indent_eq
        ParseDent_dedent_eq DENT_SPACES_def)
qed

text \<open>
  Claim C2 on a line of three spaces and \<^verbatim>\<open>b\<close>, at level 0, after the tokens of a first
  line \<^verbatim>\<open>a\<close>: \<open>ParseDent\<close> adds two \<open>Indent\<close> tokens and the level is 2, where the
  claim has one \<open>Indent\<close> (three spaces are one unit, truncated). The tokens of the whole
  text follow, and those of a text with three such lines: the second line of the same
  indentation gets a \<open>Dedent\<close>, the third an \<open>Indent\<close>.
\<close>

theorem ParseDent_three_spaces:
  "ParseDent \<lparr>token_input = istringstream ''   b'', vct_tokens = [token_Id ''a'', token_Newline],
              current_token = 0, dent = 0\<rparr>
     = \<lparr>token_input = istringstream ''b'',
        vct_tokens = [token_Id ''a'', token_Newline, token_Indent, token_Indent],
        current_token = 0, dent = 2\<rparr>
   \<and> tokens_of ch0 (''a'' @ [CHR 0x0A] @ ''   b'')
     = Some (Inr [token_Id ''a'', token_Newline, token_Indent, token_Indent, token_Id ''b'',
                  token_Newline, token_Dedent, token_Dedent, token_Eof])
   \<and> tokens_of ch0 (''a'' @ [CHR 0x0A] @ ''   b'' @ [CHR 0x0A] @ ''   c'' @ [CHR 0x0A] @ ''   d'')
     = Some (Inr [token_Id ''a'', token_Newline, token_Indent, token_Indent, token_Id ''b'',
                  token_Newline, token_Dedent, token_Id ''c'', token_Newline, token_Indent,
                  token_Id ''d'', token_Newline, token_Dedent, token_Dedent, token_Eof])"
  by code_simp

subsection \<open>Blank lines\<close>

text \<open>
  A blank line that ends in a line feed: \<open>ParseDent\<close>, called after the line feed of
  the line before, reads the spaces and stops at the line feed with no token added and
  the level unchanged. The next round of the main loop, which starts at that line feed
  with a \<open>Newline\<close> as the last token (or with no token yet), adds no \<open>Newline\<close> and
  goes on with \<open>ParseDent\<close> on the line after.
\<close>

lemma ParseDent_blank_line:
  assumes "good (token_input lx)"
    and "rdbuf (token_input lx) = replicate s CHR '' '' @ CHR 0x0A # rest"
  shows "ParseDent lx = lx\<lparr>token_input := (token_input lx)\<lparr>rdbuf := CHR 0x0A # rest\<rparr>\<rparr>"
proof -
  from assms obtain c' rest' where "rdbuf (token_input lx) = c' # rest'"
    by (cases s) auto
  from CheckEof_char [OF assms(1) this]
  have e: "CheckEof (token_input lx) = (False, token_input lx)" .
  have sp: "ParseDent_spaces (token_input lx) None 0
              = ((token_input lx)\<lparr>rdbuf := rest\<rparr>, Some (CHR 0x0A), int s)"
    using ParseDent_spaces_run [OF assms, of None 0] by simp
  from assms(1) show ?thesis
    by (simp add: ParseDent_def e sp rdstate_not_eofbit_def istream_putback_def good_def to_char_def)
qed

lemma ParseTokens_round_at_line_end:
  assumes "good (token_input lx)" and "rdbuf (token_input lx) = CHR 0x0A # rest"
    and "\<not> back_is_not_Newline lx"
  shows "ParseTokens_round ch0 lx =
           Inr (ParseDent (lx\<lparr>token_input := (token_input lx)\<lparr>rdbuf := rest\<rparr>\<rparr>))"
proof -
  note e = CheckEof_char [OF assms(1,2)]
  have g: "istream_get (token_input lx) = (Some (CHR 0x0A), (token_input lx)\<lparr>rdbuf := rest\<rparr>)"
    using assms(1,2) by (simp add: istream_get_def)
  have p: "istream_peek (token_input lx) = (Some (CHR 0x0A), token_input lx)"
    using assms(1,2) by (simp add: istream_peek_def)
  have b: "istream_putback (CHR 0x0A) ((token_input lx)\<lparr>rdbuf := rest\<rparr>) = token_input lx"
    using assms(1,2) by (simp add: istream_putback_def good_def istream_eofbit_same)
  have s: "ParseString ch0 lx = Inr lx"
    by (simp add: ParseString_def e g b to_char_def)
  have k: "ParseKeywords lx = lx"
    by (simp add: ParseKeywords_def e p to_char_def isalpha_def)
  have c: "ParseChars lx = lx"
    by (simp add: ParseChars_def e g b ispunct_def)
  have n: "ParseNumbers lx = Inr lx"
    by (simp add: ParseNumbers_def e p to_char_def isdigit_def)
  have t: "TrimSpaces (token_input lx) = token_input lx"
    by (subst TrimSpaces.simps) (simp add: p)
  from assms(3) show ?thesis
    by (auto simp: ParseTokens_round_def s k c n t ParseNewLine_def p g to_char_def Let_def
        back_is_not_Newline_def)
qed

text \<open>
  Spaces that run to the end of the input, a blank last line without a line feed: the
  \<^verbatim>\<open>get\<close> that fails sets \<^verbatim>\<open>eofbit\<close> and \<^verbatim>\<open>failbit\<close>, so the test of line 141 holds,
  \<^verbatim>\<open>putback\<close> finds a failed stream, and the character in \<open>ch\<close> is a space, not a line
  feed: the level is adjusted to the count of the spaces.
\<close>

lemma ParseDent_spaces_to_end:
  assumes "good (token_input lx)" and "rdbuf (token_input lx) = replicate (Suc s) CHR '' ''"
  shows "ParseDent lx =
           ParseDent_adjust (lx\<lparr>token_input := \<lparr>rdbuf = [], eofbit = False, failbit = True\<rparr>\<rparr>)
             (int (Suc s))"
proof -
  from assms have "rdbuf (token_input lx) = CHR '' '' # replicate s CHR '' ''"
    by simp
  from CheckEof_char [OF assms(1) this]
  have e: "CheckEof (token_input lx) = (False, token_input lx)" .
  have sp: "ParseDent_spaces (token_input lx) None 0
              = ((token_input lx)\<lparr>rdbuf := [], eofbit := True, failbit := True\<rparr>,
                 Some CHR '' '', int (Suc s))"
    using ParseDent_spaces_eof [OF assms, of None 0] by simp
  show ?thesis
    by (simp add: ParseDent_def e sp rdstate_not_eofbit_def istream_putback_def to_char_def
        istream_all_updated)
qed

text \<open>
  Claim C8 on the text \<^verbatim>\<open>x\<close>, a line feed and two spaces: the blank last line gets an
  \<open>Indent\<close>, and after it a \<open>Newline\<close> and a \<open>Dedent\<close> at the end of the input, where
  the claim has no token for a blank line. With a line feed after the two spaces, or
  without the last line, the tokens are those of \<^verbatim>\<open>x\<close> alone.
\<close>

theorem blank_last_line_Indent:
  "tokens_of ch0 (''x'' @ [CHR 0x0A] @ ''  '')
     = Some (Inr [token_Id ''x'', token_Newline, token_Indent, token_Newline, token_Dedent,
                  token_Eof])
   \<and> tokens_of ch0 (''x'' @ [CHR 0x0A] @ ''  '' @ [CHR 0x0A])
     = Some (Inr [token_Id ''x'', token_Newline, token_Eof])
   \<and> tokens_of ch0 (''x'' @ [CHR 0x0A])
     = Some (Inr [token_Id ''x'', token_Newline, token_Eof])"
  by code_simp

subsection \<open>What the main loop keeps\<close>












subsection \<open>When the main loop returns\<close>



text \<open>
  On the other hand the main loop returns, with a lexer or with an exception, on every
  input whose characters are letters, digits, punctuation, spaces and line feeds. First,
  every operation on the stream and every scanner leaves a stream that follows the one
  it found.
\<close>

lemma follows_refl: "follows inp inp"
  by (simp add: follows_def)

lemma follows_trans: "follows c b \<Longrightarrow> follows b a \<Longrightarrow> follows c a"
  unfolding follows_def using suffix_order.trans by blast

lemma follows_peek: "follows (snd (istream_peek inp)) inp"
  by (simp add: follows_def istream_peek_def split: list.splits)

lemma follows_get: "follows (snd (istream_get inp)) inp"
  by (simp add: follows_def istream_get_def suffix_Cons split: list.splits)

lemma follows_getline: "follows (istream_getline inp) inp"
proof (cases "good inp")
  case False
  then show ?thesis by (simp add: follows_def istream_getline_def)
next
  case True
  then have nf: "\<not> failbit inp" by (simp add: good_def)
  show ?thesis
  proof (cases "dropWhile (\<lambda>c. c \<noteq> CHR 0x0A) (rdbuf inp)")
    case Nil
    show ?thesis by (simp add: follows_def istream_getline_def Nil True nf)
  next
    case (Cons c cs)
    have "suffix (c # cs) (rdbuf inp)"
      using suffix_dropWhile [of "\<lambda>c. c \<noteq> CHR 0x0A" "rdbuf inp"] Cons by simp
    then have "suffix cs (rdbuf inp)" by (rule suffix_ConsD)
    then show ?thesis by (simp add: follows_def istream_getline_def Cons True nf)
  qed
qed

lemma get_Some:
  "istream_get inp = (Some c, inp1) \<Longrightarrow>
     good inp \<and> good inp1 \<and> rdbuf inp = c # rdbuf inp1 \<and> istream_putback c inp1 = inp"
  by (auto simp: istream_get_def good_def istream_putback_def split: if_splits list.splits)

lemma get_None:
  "istream_get inp = (None, inp1) \<Longrightarrow> failbit inp1 \<and> rdbuf inp1 = rdbuf inp"
  by (auto simp: istream_get_def good_def split: if_splits list.splits)

lemma get_good:
  "good inp \<Longrightarrow> rdbuf inp = c # cs \<Longrightarrow> istream_get inp = (Some c, inp\<lparr>rdbuf := cs\<rparr>)"
  by (simp add: istream_get_def)

lemma peek_good:
  "good inp \<Longrightarrow> rdbuf inp = c # cs \<Longrightarrow> istream_peek inp = (Some c, inp)"
  by (simp add: istream_peek_def)

lemma good_rdbuf_update: "good (inp\<lparr>rdbuf := cs\<rparr>) = good inp"
  by (simp add: good_def)

lemma follows_putback_failed:
  "failbit inp \<Longrightarrow> follows (istream_putback c inp) inp"
  by (simp add: follows_def istream_putback_def)

lemma follows_failbit: "follows inp' inp \<Longrightarrow> failbit inp \<Longrightarrow> failbit inp'"
  by (simp add: follows_def)

lemma follows_length: "follows inp' inp \<Longrightarrow> length (rdbuf inp') \<le> length (rdbuf inp)"
  by (simp add: follows_def suffix_length_le)

lemma follows_set: "follows inp' inp \<Longrightarrow> set (rdbuf inp') \<subseteq> set (rdbuf inp)"
  by (simp add: follows_def set_mono_suffix)

lemma follows_tail:
  "follows inp' (inp\<lparr>rdbuf := cs\<rparr>) \<Longrightarrow> rdbuf inp = c # cs \<Longrightarrow>
     follows inp' inp \<and> length (rdbuf inp') < length (rdbuf inp)"
  by (auto simp: follows_def suffix_Cons dest: suffix_length_le)

lemma CheckEof_follows: "CheckEof inp = (e, inp0) \<Longrightarrow> follows inp0 inp"
  using follows_peek [of inp] by (auto simp: CheckEof_def split: prod.splits)

lemma CheckEof_False:
  "CheckEof inp = (False, inp0) \<Longrightarrow> inp0 = inp \<and> good inp \<and> rdbuf inp \<noteq> []"
  by (auto simp: CheckEof_def istream_peek_def split: prod.splits if_splits list.splits)

lemma CheckEof_not_good:
  "\<not> good inp \<Longrightarrow> CheckEof inp = (True, inp\<lparr>failbit := True\<rparr>)"
  by (simp add: CheckEof_def istream_peek_def)

lemma CheckEof_empty:
  "good inp \<Longrightarrow> rdbuf inp = [] \<Longrightarrow> CheckEof inp = (True, inp\<lparr>eofbit := True\<rparr>)"
  by (simp add: CheckEof_def istream_peek_def)

lemma TrimSpaces_follows: "follows (TrimSpaces inp) inp"
proof (induction inp rule: TrimSpaces.induct)
  case (1 inp)
  obtain c inp1 where p: "istream_peek inp = (c, inp1)"
    by (cases "istream_peek inp") auto
  have f1: "follows inp1 inp"
    using follows_peek [of inp] p by simp
  show ?case
  proof (cases "c = Some CHR '' ''")
    case True
    from "1.IH" [OF p [symmetric] True]
    have "follows (TrimSpaces (snd (istream_get inp1))) (snd (istream_get inp1))" .
    from follows_trans [OF follows_trans [OF this follows_get] f1] p True
    show ?thesis by (subst TrimSpaces.simps) simp
  next
    case False
    with p f1 show ?thesis by (subst TrimSpaces.simps) simp
  qed
qed

lemma ParseComments_follows: "follows (ParseComments inp) inp"
proof -
  obtain c inp1 where p: "istream_peek inp = (c, inp1)"
    by (cases "istream_peek inp") auto
  have f1: "follows inp1 inp"
    using follows_peek [of inp] p by simp
  show ?thesis
  proof (cases "to_char c = CHR ''#''")
    case False
    with p f1 show ?thesis by (simp add: ParseComments_def)
  next
    case True
    have g: "follows (istream_getline inp1) inp1" by (rule follows_getline)
    show ?thesis
    proof (cases "rdstate_not_eofbit (istream_getline inp1)")
      case False
      with p True follows_trans [OF g f1] show ?thesis
        by (simp add: ParseComments_def Let_def)
    next
      case ne: True
      have "follows (istream_putback (CHR 0x0A) (istream_getline inp1)) inp1"
      proof (cases "good inp1")
        case False
        then have "failbit (istream_getline inp1)" by (simp add: istream_getline_def)
        from follows_trans [OF follows_putback_failed [OF this] g] show ?thesis .
      next
        case gd: True
        then have nf: "\<not> failbit inp1" by (simp add: good_def)
        show ?thesis
        proof (cases "dropWhile (\<lambda>c. c \<noteq> CHR 0x0A) (rdbuf inp1)")
          case Nil
          have "\<not> rdstate_not_eofbit (istream_getline inp1) \<or> failbit (istream_getline inp1)"
            by (simp add: istream_getline_def Nil gd rdstate_not_eofbit_def)
          with ne have "failbit (istream_getline inp1)" by simp
          from follows_trans [OF follows_putback_failed [OF this] g] show ?thesis .
        next
          case (Cons d ds)
          have "d = CHR 0x0A"
            using hd_dropWhile [of "\<lambda>c. c \<noteq> CHR 0x0A" "rdbuf inp1"] Cons by simp
          moreover have "suffix (d # ds) (rdbuf inp1)"
            using suffix_dropWhile [of "\<lambda>c. c \<noteq> CHR 0x0A" "rdbuf inp1"] Cons by simp
          ultimately show ?thesis
            using nf gd by (simp add: follows_def istream_getline_def Cons istream_putback_def good_def)
        qed
      qed
      from follows_trans [OF this f1] p True ne show ?thesis
        by (simp add: ParseComments_def Let_def)
    qed
  qed
qed

lemma ParseDent_spaces_follows:
  "ParseDent_spaces inp ch n = (inp', ch', n') \<Longrightarrow>
     follows inp' inp \<and> follows (istream_putback (to_char ch') inp') inp"
proof (induction inp ch n rule: ParseDent_spaces.induct)
  case (1 inp ch n)
  obtain c inp1 where g: "istream_get inp = (c, inp1)"
    by (cases "istream_get inp") auto
  have f1: "follows inp1 inp"
    using follows_get [of inp] g by simp
  show ?case
  proof (cases c)
    case None
    with g "1.prems" have e: "inp' = inp1" "ch' = ch"
      by (subst (asm) ParseDent_spaces.simps, simp)+
    from get_None [OF g [unfolded None]] have "failbit inp1" by simp
    from follows_trans [OF follows_putback_failed [OF this] f1] f1 e show ?thesis by simp
  next
    case (Some d)
    show ?thesis
    proof (cases "d = CHR '' ''")
      case True
      with g Some "1.prems" have "ParseDent_spaces inp1 (Some d) (n + 1) = (inp', ch', n')"
        by (subst (asm) ParseDent_spaces.simps) simp
      from "1.IH" [OF g [symmetric] Some True this] f1 show ?thesis
        by (blast intro: follows_trans)
    next
      case False
      with g Some "1.prems" have e: "inp' = inp1" "ch' = Some d"
        by (subst (asm) ParseDent_spaces.simps, simp)+
      from get_Some [OF g [unfolded Some]] have "istream_putback d inp1 = inp" by simp
      with e f1 show ?thesis by (simp add: to_char_def follows_refl)
    qed
  qed
qed

lemma ParseDent_adjust_input: "token_input (ParseDent_adjust lx s) = token_input lx"
  by (simp add: ParseDent_adjust_def ParseDent_indent_eq ParseDent_dedent_eq)

lemma ParseDent_follows: "follows (token_input (ParseDent lx)) (token_input lx)"
proof -
  obtain e inp0 where c: "CheckEof (token_input lx) = (e, inp0)"
    by (cases "CheckEof (token_input lx)") auto
  note f0 = CheckEof_follows [OF c]
  show ?thesis
  proof (cases e)
    case True
    with c f0 show ?thesis by (simp add: ParseDent_def)
  next
    case False
    obtain inp1 ch s where sp: "ParseDent_spaces inp0 None 0 = (inp1, ch, s)"
      by (cases "ParseDent_spaces inp0 None 0") auto
    from ParseDent_spaces_follows [OF sp] f0
    have "follows inp1 (token_input lx)" "follows (istream_putback (to_char ch) inp1) (token_input lx)"
      by (blast intro: follows_trans)+
    with c False sp show ?thesis
      by (auto simp: ParseDent_def Let_def ParseDent_adjust_input)
  qed
qed

lemma ParseNewLine_follows: "follows (token_input (ParseNewLine lx)) (token_input lx)"
proof -
  obtain c inp1 where p: "istream_peek (token_input lx) = (c, inp1)"
    by (cases "istream_peek (token_input lx)") auto
  have f1: "follows inp1 (token_input lx)"
    using follows_peek [of "token_input lx"] p by simp
  have f2: "follows (snd (istream_get inp1)) (token_input lx)"
    by (rule follows_trans [OF follows_get f1])
  have d: "\<And>l. token_input l = snd (istream_get inp1) \<Longrightarrow>
             follows (token_input (ParseDent l)) (token_input lx)"
    using follows_trans [OF ParseDent_follows] f2 by metis
  from p f1 show ?thesis
    by (auto simp: ParseNewLine_def Let_def emplace_back_def intro!: d)
qed

lemma ParseString_loop_follows:
  "ParseString_loop b inp ch r = Inr (inp', ch', r') \<Longrightarrow> follows inp' inp"
proof (induction b inp ch r rule: ParseString_loop.induct)
  case (1 b inp ch r)
  obtain c inp1 where g: "istream_get inp = (c, inp1)"
    by (cases "istream_get inp") auto
  have f1: "follows inp1 inp"
    using follows_get [of inp] g by simp
  obtain e inp2 where g2: "istream_get inp1 = (e, inp2)"
    by (cases "istream_get inp1") auto
  have f2: "follows inp2 inp"
    using follows_get [of inp1] g2 f1 by (auto intro: follows_trans)
  note u = "1.prems" [unfolded ParseString_loop.simps [of b inp ch r]]
  show ?case
  proof (cases c)
    case None
    with g u f1 show ?thesis by simp
  next
    case (Some d)
    show ?thesis
    proof (cases "d = b")
      case True
      with g Some u f1 show ?thesis by simp
    next
      case nb: False
      show ?thesis
      proof (cases "d = CHR 0x5C")
        case True
        with g Some nb u g2 obtain x y where
          x: "e = Some x" "ParseString_escape x = Some y"
            "ParseString_loop b inp2 d (r @ [y]) = Inr (inp', ch', r')"
          by (auto split: option.splits)
        from "1.IH"(1) [OF g [symmetric] Some nb True g2 [symmetric] x(1) x(2) x(3)] f2
        show ?thesis by (blast intro: follows_trans)
      next
        case False
        with g Some nb u have
          x: "\<not> (d = CHR 0x0A \<or> d = CHR 0x0D)"
            "ParseString_loop b inp1 d (r @ [d]) = Inr (inp', ch', r')"
          by (auto split: if_splits)
        from "1.IH"(2) [OF g [symmetric] Some nb False x(1) x(2)] f1
        show ?thesis by (blast intro: follows_trans)
      qed
    qed
  qed
qed

lemma ParseString_follows:
  assumes "ParseString ch0 lx = Inr lx'"
  shows "follows (token_input lx') (token_input lx)"
proof -
  obtain e inp0 where c: "CheckEof (token_input lx) = (e, inp0)"
    by (cases "CheckEof (token_input lx)") auto
  note f0 = CheckEof_follows [OF c]
  show ?thesis
  proof (cases e)
    case True
    with c f0 assms show ?thesis by (auto simp: ParseString_def)
  next
    case False
    obtain d inp1 where g: "istream_get inp0 = (d, inp1)"
      by (cases "istream_get inp0") auto
    from c False have "CheckEof (token_input lx) = (False, inp0)" by simp
    from CheckEof_False [OF this] have i: "inp0 = token_input lx" "good inp0" "rdbuf inp0 \<noteq> []"
      by simp_all
    then obtain b where d: "d = Some b"
      using g by (auto simp: istream_get_def split: list.splits)
    have f1: "follows inp1 (token_input lx)"
      using follows_get [of inp0] g i by simp
    show ?thesis
    proof (cases "b = CHR 0x27 \<or> b = CHR 0x22")
      case False
      from get_Some [OF g [unfolded d]] have "istream_putback b inp1 = inp0" by simp
      with c \<open>\<not> e\<close> g d False assms i show ?thesis
        by (auto simp: ParseString_def to_char_def Let_def follows_refl)
    next
      case True
      with c \<open>\<not> e\<close> g d assms obtain inp2 ch r where
        l: "ParseString_loop b inp1 ch0 [] = Inr (inp2, ch, r)" and "token_input lx' = inp2"
        by (auto simp: ParseString_def to_char_def Let_def emplace_back_def
            split: sum.splits if_splits)
      with ParseString_loop_follows [OF l] f1 show ?thesis
        by (auto intro: follows_trans)
    qed
  qed
qed

lemma ParseKeywords_loop_follows:
  "follows (fst (ParseKeywords_loop inp keyword)) inp"
proof (induction inp keyword rule: ParseKeywords_loop.induct)
  case (1 inp keyword)
  obtain c inp1 where g: "istream_get inp = (c, inp1)"
    by (cases "istream_get inp") auto
  have f1: "follows inp1 inp"
    using follows_get [of inp] g by simp
  show ?case
  proof (cases c)
    case None
    with g f1 show ?thesis by (subst ParseKeywords_loop.simps) simp
  next
    case (Some d)
    show ?thesis
    proof (cases "isalnum d \<or> d = CHR ''_''")
      case True
      from "1.IH" [OF g [symmetric] Some True] f1
      have "follows (fst (ParseKeywords_loop inp1 (keyword @ [d]))) inp"
        by (blast intro: follows_trans)
      with g Some True show ?thesis by (subst ParseKeywords_loop.simps) simp
    next
      case False
      from get_Some [OF g [unfolded Some]] have "istream_putback d inp1 = inp" by simp
      with g Some False show ?thesis
        by (subst ParseKeywords_loop.simps) (simp add: follows_refl)
    qed
  qed
qed

lemma ParseNumbers_loop_follows:
  "follows (fst (ParseNumbers_loop inp result)) inp"
proof (induction inp result rule: ParseNumbers_loop.induct)
  case (1 inp result)
  obtain c inp1 where g: "istream_get inp = (c, inp1)"
    by (cases "istream_get inp") auto
  have f1: "follows inp1 inp"
    using follows_get [of inp] g by simp
  show ?case
  proof (cases c)
    case None
    with g f1 show ?thesis by (subst ParseNumbers_loop.simps) simp
  next
    case (Some d)
    show ?thesis
    proof (cases "isdigit d")
      case True
      from "1.IH" [OF g [symmetric] Some True] f1
      have "follows (fst (ParseNumbers_loop inp1 (result @ [d]))) inp"
        by (blast intro: follows_trans)
      with g Some True show ?thesis by (subst ParseNumbers_loop.simps) simp
    next
      case False
      from get_Some [OF g [unfolded Some]] have "istream_putback d inp1 = inp" by simp
      with g Some False show ?thesis
        by (subst ParseNumbers_loop.simps) (simp add: follows_refl)
    qed
  qed
qed

lemma ParseKeywords_follows: "follows (token_input (ParseKeywords lx)) (token_input lx)"
proof -
  obtain e inp0 where c: "CheckEof (token_input lx) = (e, inp0)"
    by (cases "CheckEof (token_input lx)") auto
  note f0 = CheckEof_follows [OF c]
  obtain d inp1 where p: "istream_peek inp0 = (d, inp1)"
    by (cases "istream_peek inp0") auto
  have f1: "follows inp1 (token_input lx)"
    using follows_peek [of inp0] p f0 by (auto intro: follows_trans)
  have f2: "follows (fst (ParseKeywords_loop inp1 [])) (token_input lx)"
    by (rule follows_trans [OF ParseKeywords_loop_follows f1])
  from c p f0 f1 f2 show ?thesis
    by (cases e) (auto simp: ParseKeywords_def emplace_back_def split: prod.splits)
qed

lemma ParseNumbers_follows:
  assumes "ParseNumbers lx = Inr lx'"
  shows "follows (token_input lx') (token_input lx)"
proof -
  obtain e inp0 where c: "CheckEof (token_input lx) = (e, inp0)"
    by (cases "CheckEof (token_input lx)") auto
  note f0 = CheckEof_follows [OF c]
  obtain d inp1 where p: "istream_peek inp0 = (d, inp1)"
    by (cases "istream_peek inp0") auto
  have f1: "follows inp1 (token_input lx)"
    using follows_peek [of inp0] p f0 by (auto intro: follows_trans)
  have f2: "follows (fst (ParseNumbers_loop inp1 [])) (token_input lx)"
    by (rule follows_trans [OF ParseNumbers_loop_follows f1])
  from c p f0 f1 f2 assms show ?thesis
    by (cases e) (auto simp: ParseNumbers_def emplace_back_def split: prod.splits sum.splits if_splits)
qed

lemma ParseChars_pair_follows:
  "follows (token_input (ParseChars_pair ch two lx)) (token_input lx)"
proof -
  obtain d inp1 where p: "istream_peek (token_input lx) = (d, inp1)"
    by (cases "istream_peek (token_input lx)") auto
  have f1: "follows inp1 (token_input lx)"
    using follows_peek [of "token_input lx"] p by simp
  have f2: "follows (snd (istream_get inp1)) (token_input lx)"
    by (rule follows_trans [OF follows_get f1])
  from p f1 f2 show ?thesis
    by (simp add: ParseChars_pair_def emplace_back_def)
qed

lemma ParseChars_follows: "follows (token_input (ParseChars lx)) (token_input lx)"
proof -
  obtain e inp0 where c: "CheckEof (token_input lx) = (e, inp0)"
    by (cases "CheckEof (token_input lx)") auto
  note f0 = CheckEof_follows [OF c]
  show ?thesis
  proof (cases e)
    case True
    with c f0 show ?thesis by (simp add: ParseChars_def)
  next
    case False
    obtain d inp1 where g: "istream_get inp0 = (d, inp1)"
      by (cases "istream_get inp0") auto
    have f1: "follows inp1 (token_input lx)"
      using follows_get [of inp0] g f0 by (auto intro: follows_trans)
    show ?thesis
    proof (cases d)
      case None
      with c False g f1 show ?thesis by (simp add: ParseChars_def)
    next
      case (Some ch)
      from get_Some [OF g [unfolded Some]] have b: "istream_putback ch inp1 = inp0" by simp
      have cm: "follows (ParseComments inp0) (token_input lx)"
        by (rule follows_trans [OF ParseComments_follows f0])
      have pr: "\<And>two. follows (token_input (ParseChars_pair ch two (lx\<lparr>token_input := inp1\<rparr>)))
                  (token_input lx)"
        using follows_trans [OF ParseChars_pair_follows, of "lx\<lparr>token_input := inp1\<rparr>"] f1
        by simp
      from c False g Some b f0 f1 cm pr show ?thesis
        by (auto simp: ParseChars_def emplace_back_def)
    qed
  qed
qed

lemma ParseTokens_round_follows:
  assumes "ParseTokens_round ch0 lx = Inr lx'"
  shows "follows (token_input lx') (token_input lx)"
proof -
  from assms obtain lx1 lx2 where
    s: "ParseString ch0 lx = Inr lx1" and
    n: "ParseNumbers (ParseChars (ParseKeywords lx1)) = Inr lx2" and
    r: "lx' = ParseNewLine (lx2\<lparr>token_input := TrimSpaces (token_input lx2)\<rparr>)"
    by (auto simp: ParseTokens_round_def split: sum.splits)
  have "follows (token_input lx') (TrimSpaces (token_input lx2))"
    unfolding r using ParseNewLine_follows [of "lx2\<lparr>token_input := TrimSpaces (token_input lx2)\<rparr>"]
    by simp
  from follows_trans [OF this TrimSpaces_follows]
  have "follows (token_input lx') (token_input lx2)" .
  from follows_trans [OF this ParseNumbers_follows [OF n]]
  have "follows (token_input lx') (token_input (ParseChars (ParseKeywords lx1)))" .
  from follows_trans [OF this ParseChars_follows]
  have "follows (token_input lx') (token_input (ParseKeywords lx1))" .
  from follows_trans [OF this ParseKeywords_follows]
  have "follows (token_input lx') (token_input lx1)" .
  from follows_trans [OF this ParseString_follows [OF s]]
  show ?thesis .
qed

text \<open>
  A round of the main loop on a stream that is not good, or is at its end, leaves a
  failed stream, and the loop returns in the next round.
\<close>

lemma ParseTokens_round_stages:
  assumes "ParseTokens_round ch0 lx = Inr lx'"
  obtains lx1 lx4 where "ParseString ch0 lx = Inr lx1"
    and "ParseNumbers (ParseChars (ParseKeywords lx1)) = Inr lx4"
    and "lx' = ParseNewLine (lx4\<lparr>token_input := TrimSpaces (token_input lx4)\<rparr>)"
  using assms by (auto simp: ParseTokens_round_def split: sum.splits)

lemma follows_after_TrimSpaces:
  "follows (token_input (ParseNewLine (lx\<lparr>token_input := TrimSpaces (token_input lx)\<rparr>)))
     (token_input lx)"
proof -
  have "follows (token_input (ParseNewLine (lx\<lparr>token_input := TrimSpaces (token_input lx)\<rparr>)))
          (TrimSpaces (token_input lx))"
    using ParseNewLine_follows [of "lx\<lparr>token_input := TrimSpaces (token_input lx)\<rparr>"] by simp
  from follows_trans [OF this TrimSpaces_follows] show ?thesis .
qed

lemma follows_after_ParseKeywords:
  assumes "ParseNumbers (ParseChars lx2) = Inr lx4"
  shows "follows (token_input (ParseNewLine (lx4\<lparr>token_input := TrimSpaces (token_input lx4)\<rparr>)))
           (token_input lx2)"
  by (rule follows_trans [OF follows_trans [OF follows_after_TrimSpaces ParseNumbers_follows [OF assms]]
        ParseChars_follows])

lemma follows_after_ParseString:
  assumes "ParseNumbers (ParseChars (ParseKeywords lx1)) = Inr lx4"
  shows "follows (token_input (ParseNewLine (lx4\<lparr>token_input := TrimSpaces (token_input lx4)\<rparr>)))
           (token_input lx1)"
  by (rule follows_trans [OF follows_after_ParseKeywords [OF assms] ParseKeywords_follows])

lemma ParseTokens_round_not_good:
  assumes "\<not> good (token_input lx)" and "ParseTokens_round ch0 lx = Inr lx'"
  shows "failbit (token_input lx')"
proof -
  from assms(2) obtain lx1 lx4 where s: "ParseString ch0 lx = Inr lx1"
    and n: "ParseNumbers (ParseChars (ParseKeywords lx1)) = Inr lx4"
    and r: "lx' = ParseNewLine (lx4\<lparr>token_input := TrimSpaces (token_input lx4)\<rparr>)"
    by (rule ParseTokens_round_stages)
  from s assms(1) have "failbit (token_input lx1)"
    by (auto simp: ParseString_def CheckEof_not_good)
  from follows_failbit [OF follows_after_ParseString [OF n] this] r show ?thesis
    by simp
qed

lemma ParseTokens_round_empty:
  assumes "good (token_input lx)" and "rdbuf (token_input lx) = []"
    and "ParseTokens_round ch0 lx = Inr lx'"
  shows "failbit (token_input lx')"
proof -
  from assms(3) obtain lx1 lx4 where s: "ParseString ch0 lx = Inr lx1"
    and n: "ParseNumbers (ParseChars (ParseKeywords lx1)) = Inr lx4"
    and r: "lx' = ParseNewLine (lx4\<lparr>token_input := TrimSpaces (token_input lx4)\<rparr>)"
    by (rule ParseTokens_round_stages)
  from s assms(1,2) have "lx1 = lx\<lparr>token_input := (token_input lx)\<lparr>eofbit := True\<rparr>\<rparr>"
    by (auto simp: ParseString_def CheckEof_empty)
  then have "\<not> good (token_input lx1)"
    by (simp add: good_def)
  then have "failbit (token_input (ParseKeywords lx1))"
    by (simp add: ParseKeywords_def CheckEof_not_good)
  from follows_failbit [OF follows_after_ParseKeywords [OF n] this] r show ?thesis
    by simp
qed

text \<open>
  On a good stream with a first character, a scanner that the character does not
  concern leaves the lexer as it is, and the scanner that it concerns extracts it: the
  stream it leaves follows the rest of the stream after the character.
\<close>

lemma putback_tail:
  "good inp \<Longrightarrow> rdbuf inp = c # cs \<Longrightarrow> istream_putback c (inp\<lparr>rdbuf := cs\<rparr>) = inp"
  using get_Some [OF get_good] by blast

lemma lexer_input_same: "lx\<lparr>token_input := token_input lx\<rparr> = lx"
  by simp

lemma ParseString_skip:
  assumes "good (token_input lx)" and "rdbuf (token_input lx) = c # cs"
    and "c \<noteq> CHR 0x27" and "c \<noteq> CHR 0x22"
  shows "ParseString ch0 lx = Inr lx"
  using assms(3,4)
  by (simp add: ParseString_def CheckEof_char [OF assms(1,2)] get_good [OF assms(1,2)]
      putback_tail [OF assms(1,2)] to_char_def)

lemma ParseKeywords_skip:
  assumes "good (token_input lx)" and "rdbuf (token_input lx) = c # cs"
    and "\<not> isalpha c" and "c \<noteq> CHR ''_''"
  shows "ParseKeywords lx = lx"
  using assms(3,4)
  by (simp add: ParseKeywords_def CheckEof_char [OF assms(1,2)] peek_good [OF assms(1,2)]
      to_char_def)

lemma ParseChars_skip:
  assumes "good (token_input lx)" and "rdbuf (token_input lx) = c # cs" and "\<not> ispunct c"
  shows "ParseChars lx = lx"
  using assms(3)
  by (simp add: ParseChars_def CheckEof_char [OF assms(1,2)] get_good [OF assms(1,2)]
      putback_tail [OF assms(1,2)])

lemma ParseNumbers_skip:
  assumes "good (token_input lx)" and "rdbuf (token_input lx) = c # cs" and "\<not> isdigit c"
  shows "ParseNumbers lx = Inr lx"
  using assms(3)
  by (simp add: ParseNumbers_def CheckEof_char [OF assms(1,2)] peek_good [OF assms(1,2)]
      to_char_def)

lemma TrimSpaces_skip:
  assumes "good inp" and "rdbuf inp = c # cs" and "c \<noteq> CHR '' ''"
  shows "TrimSpaces inp = inp"
  using assms(3) by (subst TrimSpaces.simps) (simp add: peek_good [OF assms(1,2)])

lemma ParseString_quote:
  assumes "good (token_input lx)" and "rdbuf (token_input lx) = c # cs"
    and "ParseString ch0 lx = Inr lx1"
    and "c = CHR 0x27 \<or> c = CHR 0x22"
  shows "follows (token_input lx1) ((token_input lx)\<lparr>rdbuf := cs\<rparr>)"
proof -
  from assms(3,4) obtain inp2 ch r where
    l: "ParseString_loop c ((token_input lx)\<lparr>rdbuf := cs\<rparr>) ch0 [] = Inr (inp2, ch, r)"
    and "token_input lx1 = inp2"
    by (auto simp: ParseString_def CheckEof_char [OF assms(1,2)] get_good [OF assms(1,2)]
        to_char_def Let_def emplace_back_def split: sum.splits if_splits)
  with ParseString_loop_follows [OF l] show ?thesis by simp
qed

lemma ParseKeywords_alpha:
  assumes "good (token_input lx)" and "rdbuf (token_input lx) = c # cs"
    and "isalpha c \<or> c = CHR ''_''"
  shows "follows (token_input (ParseKeywords lx)) ((token_input lx)\<lparr>rdbuf := cs\<rparr>)"
proof -
  from assms(3) have a: "isalnum c \<or> c = CHR ''_''"
    by (auto simp: isalnum_def)
  have u: "ParseKeywords_loop (token_input lx) []
             = ParseKeywords_loop ((token_input lx)\<lparr>rdbuf := cs\<rparr>) [c]"
    using a by (subst ParseKeywords_loop.simps) (simp add: get_good [OF assms(1,2)])
  have "token_input (ParseKeywords lx)
          = fst (ParseKeywords_loop ((token_input lx)\<lparr>rdbuf := cs\<rparr>) [c])"
    using assms(3)
    by (simp add: ParseKeywords_def CheckEof_char [OF assms(1,2)] peek_good [OF assms(1,2)]
        to_char_def u emplace_back_def split: prod.splits)
  with ParseKeywords_loop_follows [of "(token_input lx)\<lparr>rdbuf := cs\<rparr>" "[c]"]
  show ?thesis by simp
qed

lemma ParseNumbers_digit:
  assumes "good (token_input lx)" and "rdbuf (token_input lx) = c # cs"
    and "isdigit c" and "ParseNumbers lx = Inr lx4"
  shows "follows (token_input lx4) ((token_input lx)\<lparr>rdbuf := cs\<rparr>)"
proof -
  have u: "ParseNumbers_loop (token_input lx) []
             = ParseNumbers_loop ((token_input lx)\<lparr>rdbuf := cs\<rparr>) [c]"
    using assms(3) by (subst ParseNumbers_loop.simps) (simp add: get_good [OF assms(1,2)])
  have "token_input lx4
          = fst (ParseNumbers_loop ((token_input lx)\<lparr>rdbuf := cs\<rparr>) [c])"
    using assms(3,4)
    by (auto simp: ParseNumbers_def CheckEof_char [OF assms(1,2)] peek_good [OF assms(1,2)]
        to_char_def u emplace_back_def split: prod.splits sum.splits)
  with ParseNumbers_loop_follows [of "(token_input lx)\<lparr>rdbuf := cs\<rparr>" "[c]"]
  show ?thesis by simp
qed

lemma ParseComments_hash:
  assumes "good inp" and "rdbuf inp = CHR ''#'' # cs"
  shows "follows (ParseComments inp) (inp\<lparr>rdbuf := cs\<rparr>)"
proof -
  from assms(1) have nf: "\<not> failbit inp" "\<not> eofbit inp" by (simp_all add: good_def)
  have dw: "dropWhile (\<lambda>c. c \<noteq> CHR 0x0A) (rdbuf inp) = dropWhile (\<lambda>c. c \<noteq> CHR 0x0A) cs"
    by (simp add: assms(2))
  show ?thesis
  proof (cases "dropWhile (\<lambda>c. c \<noteq> CHR 0x0A) cs")
    case Nil
    have "ParseComments inp = inp\<lparr>rdbuf := [], eofbit := True, failbit := False\<rparr>"
      using nf
      by (simp add: ParseComments_def peek_good [OF assms] to_char_def istream_getline_def
          assms(1) dw Nil rdstate_not_eofbit_def Let_def assms(2))
    with nf show ?thesis by (simp add: follows_def)
  next
    case (Cons d ds)
    have d: "d = CHR 0x0A"
      using hd_dropWhile [of "\<lambda>c. c \<noteq> CHR 0x0A" cs] Cons by simp
    have s: "suffix (d # ds) cs"
      using suffix_dropWhile [of "\<lambda>c. c \<noteq> CHR 0x0A" cs] Cons by simp
    have "ParseComments inp = inp\<lparr>rdbuf := CHR 0x0A # ds, eofbit := False\<rparr>"
      using nf
      by (simp add: ParseComments_def peek_good [OF assms] to_char_def istream_getline_def
          assms(1) dw Cons rdstate_not_eofbit_def Let_def istream_putback_def)
    with nf s d show ?thesis by (simp add: follows_def)
  qed
qed

lemma ParseChars_punct:
  assumes "good (token_input lx)" and "rdbuf (token_input lx) = c # cs" and "ispunct c"
  shows "follows (token_input (ParseChars lx)) ((token_input lx)\<lparr>rdbuf := cs\<rparr>)"
proof -
  let ?tl = "(token_input lx)\<lparr>rdbuf := cs\<rparr>"
  have pr: "\<And>two. follows (token_input (ParseChars_pair c two (lx\<lparr>token_input := ?tl\<rparr>))) ?tl"
    using ParseChars_pair_follows [of c _ "lx\<lparr>token_input := ?tl\<rparr>"] by simp
  have cm: "c = CHR ''#'' \<Longrightarrow> follows (ParseComments (token_input lx)) ?tl"
    using ParseComments_hash [OF assms(1)] assms(2) by simp
  show ?thesis
  proof (cases "c = CHR ''#''")
    case True
    with assms(2) have r: "rdbuf (token_input lx) = CHR ''#'' # cs" by simp
    from assms(3) True have "ispunct CHR ''#''" by simp
    then have "ParseChars lx = lx\<lparr>token_input := ParseComments (token_input lx)\<rparr>"
      by (simp add: ParseChars_def CheckEof_char [OF assms(1) r] get_good [OF assms(1) r]
          putback_tail [OF assms(1) r])
    with cm [OF True] show ?thesis by simp
  next
    case False
    with assms(3) pr show ?thesis
      by (auto simp: ParseChars_def CheckEof_char [OF assms(1,2)] get_good [OF assms(1,2)]
          emplace_back_def follows_refl)
  qed
qed

lemma TrimSpaces_space:
  assumes "good inp" and "rdbuf inp = CHR '' '' # cs"
  shows "follows (TrimSpaces inp) (inp\<lparr>rdbuf := cs\<rparr>)"
proof -
  have "TrimSpaces inp = TrimSpaces (inp\<lparr>rdbuf := cs\<rparr>)"
    by (subst TrimSpaces.simps) (simp add: peek_good [OF assms] get_good [OF assms])
  with TrimSpaces_follows [of "inp\<lparr>rdbuf := cs\<rparr>"] show ?thesis by simp
qed

lemma ParseNewLine_line_feed:
  assumes "good (token_input lx)" and "rdbuf (token_input lx) = CHR 0x0A # cs"
  shows "follows (token_input (ParseNewLine lx)) ((token_input lx)\<lparr>rdbuf := cs\<rparr>)"
proof -
  let ?tl = "(token_input lx)\<lparr>rdbuf := cs\<rparr>"
  have d: "\<And>l. token_input l = ?tl \<Longrightarrow> follows (token_input (ParseDent l)) ?tl"
    using ParseDent_follows by metis
  show ?thesis
    by (auto simp: ParseNewLine_def peek_good [OF assms] get_good [OF assms] to_char_def Let_def
        emplace_back_def intro!: d)
qed

text \<open>
  So a round that starts at a character some scanner extracts leaves fewer characters
  in the stream, and the main loop returns, by induction on their number.
\<close>

lemma ParseTokens_round_progress:
  assumes g: "good (token_input lx)" and b: "rdbuf (token_input lx) = c # cs"
    and sc: "scanned c" and rd: "ParseTokens_round ch0 lx = Inr lx'"
  shows "follows (token_input lx') ((token_input lx)\<lparr>rdbuf := cs\<rparr>)"
proof -
  let ?tl = "(token_input lx)\<lparr>rdbuf := cs\<rparr>"
  from rd obtain lx1 lx4 where s: "ParseString ch0 lx = Inr lx1"
    and n: "ParseNumbers (ParseChars (ParseKeywords lx1)) = Inr lx4"
    and r: "lx' = ParseNewLine (lx4\<lparr>token_input := TrimSpaces (token_input lx4)\<rparr>)"
    by (rule ParseTokens_round_stages)
  show ?thesis
  proof (cases "c = CHR 0x27 \<or> c = CHR 0x22")
    case True
    from follows_trans [OF follows_after_ParseString [OF n] ParseString_quote [OF g b s True]] r
    show ?thesis by simp
  next
    case nq: False
    with ParseString_skip [OF g b, of ch0] s have l1: "lx1 = lx" by simp
    from n l1 have n1: "ParseNumbers (ParseChars (ParseKeywords lx)) = Inr lx4" by simp
    show ?thesis
    proof (cases "isalpha c \<or> c = CHR ''_''")
      case True
      from follows_trans [OF follows_after_ParseKeywords [OF n1] ParseKeywords_alpha [OF g b True]] r
      show ?thesis by simp
    next
      case na: False
      with ParseKeywords_skip [OF g b] have l2: "ParseKeywords lx = lx" by simp
      show ?thesis
      proof (cases "ispunct c")
        case True
        have "follows (token_input lx') (token_input (ParseChars lx))"
          using follows_trans [OF follows_after_TrimSpaces ParseNumbers_follows [OF n]] r l1 l2
          by simp
        from follows_trans [OF this ParseChars_punct [OF g b True]] show ?thesis .
      next
        case np: False
        with ParseChars_skip [OF g b] have l3: "ParseChars lx = lx" by simp
        show ?thesis
        proof (cases "isdigit c")
          case True
          from n l1 l2 l3 have "ParseNumbers lx = Inr lx4" by simp
          from follows_trans [OF follows_after_TrimSpaces ParseNumbers_digit [OF g b True this]] r
          show ?thesis by simp
        next
          case nd: False
          with ParseNumbers_skip [OF g b] n l1 l2 l3 have l4: "lx4 = lx" by simp
          from sc nq na np nd have c: "c = CHR '' '' \<or> c = CHR 0x0A"
            by (simp add: scanned_def)
          show ?thesis
          proof (cases "c = CHR '' ''")
            case True
            have "follows (token_input lx') (TrimSpaces (token_input lx))"
              unfolding r l4
              using ParseNewLine_follows [of "lx\<lparr>token_input := TrimSpaces (token_input lx)\<rparr>"]
              by simp
            from follows_trans [OF this TrimSpaces_space [OF g b [unfolded True]]] show ?thesis .
          next
            case False
            with c have lf: "c = CHR 0x0A" by simp
            from TrimSpaces_skip [OF g b False] have "TrimSpaces (token_input lx) = token_input lx" .
            then have "lx' = ParseNewLine lx"
              unfolding r l4 by simp
            with ParseNewLine_line_feed [OF g b [unfolded lf]] show ?thesis by simp
          qed
        qed
      qed
    qed
  qed
qed

lemma ParseTokens_loop_failed:
  "failbit (token_input lx) \<Longrightarrow> ParseTokens_loop ch0 lx = Some (Inr lx)"
  by (subst ParseTokens_loop.simps) simp

lemma ParseTokens_loop_returns:
  "\<forall>c \<in> set (rdbuf (token_input lx)). scanned c \<Longrightarrow> \<exists>r. ParseTokens_loop ch0 lx = Some r"
proof (induction "length (rdbuf (token_input lx))" arbitrary: lx rule: less_induct)
  case less
  show ?case
  proof (cases "failbit (token_input lx)")
    case True
    then show ?thesis by (simp add: ParseTokens_loop_failed)
  next
    case nf: False
    show ?thesis
    proof (cases "ParseTokens_round ch0 lx")
      case (Inl e)
      with nf show ?thesis by (subst ParseTokens_loop.simps) simp
    next
      case (Inr lx1)
      with nf have u: "ParseTokens_loop ch0 lx = ParseTokens_loop ch0 lx1"
        by (subst ParseTokens_loop.simps) simp
      show ?thesis
      proof (cases "good (token_input lx)")
        case False
        from ParseTokens_round_not_good [OF False Inr] show ?thesis
          by (simp add: u ParseTokens_loop_failed)
      next
        case gd: True
        show ?thesis
        proof (cases "rdbuf (token_input lx)")
          case Nil
          from ParseTokens_round_empty [OF gd Nil Inr] show ?thesis
            by (simp add: u ParseTokens_loop_failed)
        next
          case (Cons c cs)
          with less.prems have "scanned c" by simp
          from ParseTokens_round_progress [OF gd Cons this Inr]
          have f: "follows (token_input lx1) ((token_input lx)\<lparr>rdbuf := cs\<rparr>)" .
          from follows_tail [OF f Cons]
          have "follows (token_input lx1) (token_input lx)"
            and lt: "length (rdbuf (token_input lx1)) < length (rdbuf (token_input lx))"
            by simp_all
          from follows_set [OF this(1)] less.prems
          have "\<forall>c \<in> set (rdbuf (token_input lx1)). scanned c" by blast
          from less.hyps [OF lt this] show ?thesis by (simp add: u)
        qed
      qed
    qed
  qed
qed

lemma Lexer_ctor_returns:
  assumes "\<forall>c \<in> set (rdbuf input). scanned c"
  shows "\<exists>r. Lexer_ctor ch0 input = Some r"
proof -
  let ?lx = "\<lparr>token_input = TrimSpaces input, vct_tokens = [], current_token = 0, dent = 0\<rparr>"
  from follows_set [OF TrimSpaces_follows [of input]] assms
  have "\<forall>c \<in> set (rdbuf (token_input ?lx)). scanned c" by auto
  from ParseTokens_loop_returns [OF this, of ch0] obtain r where
    "ParseTokens_loop ch0 ?lx = Some r" by blast
  then show ?thesis
    by (cases r) (simp_all add: Lexer_ctor_def ParseTokens_def)
qed

subsection \<open>The end of the token sequence\<close>






end
